theory Spec2Isabelle
  imports Main "HOL-Library.Sublist" "HOL-Library.AList"
begin

section \<open>Identifier extraction (Organizer.extractVideoCode)\<close>







text \<open>
  \<open>fileName.replace(/\.[^/.]+$/, '')\<close>: the pattern matches at a position when a dot is
  followed, up to the end of the input, by one or more characters that are neither a slash
  nor a dot. \<open>replace\<close> with a non-global pattern removes the leftmost match, which here
  always reaches the end of the string.
\<close>

definition ext_matches_here :: "string \<Rightarrow> bool" where
  "ext_matches_here s =
     (case s of
        [] \<Rightarrow> False
      | c # rest \<Rightarrow> c = CHR ''.'' \<and> rest \<noteq> [] \<and>
          list_all (\<lambda>d. d \<noteq> CHR ''/'' \<and> d \<noteq> CHR ''.'') rest)"

fun nameWithoutExt :: "string \<Rightarrow> string" where
  "nameWithoutExt [] = []"
| "nameWithoutExt (c # cs) =
     (if ext_matches_here (c # cs) then [] else c # nameWithoutExt cs)"









section \<open>Retry with backoff (utils/retry.js)\<close>

text \<open>
  The module state of \<open>retry.js\<close>: the flag \<open>isAborting\<close> and the registry
  \<open>cleanupFunctions\<close>. Every registered hook is a closure \<open>() => clearTimeout(timer)\<close>,
  so a hook is represented by the timer it clears. \<open>armed\<close> is the runtime's table of
  timers that are set and have neither fired nor been cleared; \<open>exited\<close> records that
  \<open>process.exit\<close> has been called.
\<close>

record retry_module =
  isAborting :: bool
  cleanupFunctions :: "nat list"
  armed :: "nat list"
  next_timer :: nat
  exited :: bool

text \<open>
  \<open>globalAbortHandler\<close> (the SIGINT/SIGTERM listener): sets the flag, pops and runs every
  registered hook (each clears its timer), then calls \<open>process.exit(1)\<close>.
\<close>

definition globalAbortHandler :: "retry_module \<Rightarrow> retry_module" where
  "globalAbortHandler m =
     m\<lparr>isAborting := True,
       armed := filter (\<lambda>t. t \<notin> set (cleanupFunctions m)) (armed m),
       cleanupFunctions := [],
       exited := True\<rparr>"

record retry_options =
  maxRetries :: int
  baseDelay :: int
  maxDelay :: int

definition default_retry_options :: retry_options where
  "default_retry_options = \<lparr>maxRetries = 3, baseDelay = 1000, maxDelay = 10000\<rparr>"

text \<open>
  What \<open>retryOperation\<close> throws: the two validation errors, the interruption error
  (\<open>new Error('...')\<close> raised when \<open>isAborting\<close> is seen set), and the enhanced error
  built after the loop, which carries \<open>originalError\<close> and \<open>attempts\<close>. Reading
  \<open>lastError.message\<close> of an undefined \<open>lastError\<close> would be a \<open>TypeError\<close>.
\<close>

datatype 'e retry_error =
    InvalidMaxRetries
  | InvalidDelay
  | Interrupted
  | Exhausted (originalError: 'e) (attempts: int)
  | LastErrorUndefined

text \<open>
  How the promise returned by \<open>retryOperation\<close> ends. \<open>NeverSettled\<close>: it is neither
  fulfilled nor rejected, because the promise it awaits stays pending.
\<close>

datatype ('e, 'a) retry_outcome =
    Returned 'a
  | Threw "'e retry_error"
  | NeverSettled

text \<open>\<open>Math.min(baseDelay * Math.pow(2, attempt), maxDelay)\<close>.\<close>

definition backoff_delay :: "retry_options \<Rightarrow> int \<Rightarrow> int" where
  "backoff_delay opts attempt = min (baseDelay opts * 2 ^ nat attempt) (maxDelay opts)"

text \<open>
  The executor of the delay promise runs at once: with the flag set it rejects; otherwise
  it sets a timer whose callback is \<open>resolve\<close> and registers the hook that clears it
  (in the local list, returned here, and in the registry).
\<close>

datatype delay_promise = DelayRejected | DelayPending nat

definition start_delay :: "retry_module \<Rightarrow> delay_promise \<times> retry_module" where
  "start_delay m =
     (if isAborting m then (DelayRejected, m)
      else (DelayPending (next_timer m),
            m\<lparr>armed := next_timer m # armed m,
              cleanupFunctions := cleanupFunctions m @ [next_timer m],
              next_timer := Suc (next_timer m)\<rparr>))"

text \<open>
  A timer's callback runs only if the timer is still armed and the process is alive.
\<close>

definition timer_fires :: "nat \<Rightarrow> retry_module \<Rightarrow> retry_module option" where
  "timer_fires t m =
     (if t \<in> set (armed m) \<and> \<not> exited m
      then Some (m\<lparr>armed := removeAll t (armed m)\<rparr>) else None)"

datatype delay_result = Slept | DelayThrew | DelayNeverSettles

text \<open>
  Awaiting the delay. \<open>signalled\<close> says whether a termination signal arrives while the
  timer is pending, in which case \<open>globalAbortHandler\<close> runs first. The promise is
  fulfilled only by the timer's callback; nothing else calls \<open>resolve\<close> or \<open>reject\<close>
  after the executor has returned.
\<close>

definition await_delay ::
  "bool \<Rightarrow> delay_promise \<times> retry_module \<Rightarrow> delay_result \<times> retry_module" where
  "await_delay signalled pm =
     (case fst pm of
        DelayRejected \<Rightarrow> (DelayThrew, snd pm)
      | DelayPending t \<Rightarrow>
          (let m1 = (if signalled then globalAbortHandler (snd pm) else snd pm) in
           case timer_fires t m1 of
             Some m2 \<Rightarrow> (Slept, m2)
           | None \<Rightarrow> (DelayNeverSettles, m1)))"

text \<open>
  The loop's variables besides \<open>attempt\<close> and \<open>lastError\<close>: the world the operation acts
  on, the module state, the number of times the operation has been invoked, the delays
  slept so far and \<open>localCleanupFunctions\<close>.
\<close>

record 'w retry_vars =
  world :: 'w
  module :: retry_module
  calls :: nat
  delays :: "int list"
  localCleanupFunctions :: "nat list"

text \<open>
  The \<open>for\<close> loop of \<open>retryOperation\<close> followed by the construction of the enhanced
  error. The operation is a state transformer on the world: it returns \<open>Inl e\<close> when it
  throws \<open>e\<close> and \<open>Inr v\<close> when it returns \<open>v\<close>. \<open>sig k\<close> says whether a termination
  signal arrives during the delay that follows attempt \<open>k\<close>.
\<close>

function retry_loop ::
  "retry_options \<Rightarrow> (int \<Rightarrow> bool) \<Rightarrow> ('w \<Rightarrow> ('e + 'a) \<times> 'w) \<Rightarrow> int \<Rightarrow> 'e option \<Rightarrow>
   'w retry_vars \<Rightarrow> ('e, 'a) retry_outcome \<times> 'w retry_vars" where
  "retry_loop opts sig operation attempt lastError v =
     (if attempt < maxRetries opts then
        (if isAborting (module v) then (Threw Interrupted, v)
         else
           (let v1 = v\<lparr>world := snd (operation (world v)), calls := Suc (calls v)\<rparr> in
            case fst (operation (world v)) of
              Inr r \<Rightarrow> (Returned r, v1)
            | Inl e \<Rightarrow>
                if attempt < maxRetries opts - 1 \<and> \<not> isAborting (module v1) then
                  (let p = start_delay (module v1);
                       v2 = v1\<lparr>module := snd p,
                               delays := delays v1 @ [backoff_delay opts attempt],
                               localCleanupFunctions :=
                                 (case fst p of
                                    DelayPending t \<Rightarrow> localCleanupFunctions v1 @ [t]
                                  | DelayRejected \<Rightarrow> localCleanupFunctions v1)\<rparr>;
                       a = await_delay (sig attempt) p
                   in case fst a of
                        Slept \<Rightarrow>
                          retry_loop opts sig operation (attempt + 1) (Some e)
                            (v2\<lparr>module := snd a\<rparr>)
                      | DelayThrew \<Rightarrow> (Threw Interrupted, v2\<lparr>module := snd a\<rparr>)
                      | DelayNeverSettles \<Rightarrow> (NeverSettled, v2\<lparr>module := snd a\<rparr>))
                else retry_loop opts sig operation (attempt + 1) (Some e) v1))
      else
        (case lastError of
           Some e \<Rightarrow> (Threw (Exhausted e (maxRetries opts)), v)
         | None \<Rightarrow> (Threw LastErrorUndefined, v)))"
  by pat_completeness auto
termination
  by (relation "measure (\<lambda>(opts, sig, operation, attempt, lastError, v).
        nat (maxRetries opts - attempt))") auto

declare retry_loop.simps [simp del]

text \<open>
  The \<open>finally\<close> block: the local hooks are removed from the registry and run (clearing
  their timers). It runs when the body returns or throws, not while it is still pending.
\<close>

definition retry_finally :: "'w retry_vars \<Rightarrow> 'w retry_vars" where
  "retry_finally v =
     v\<lparr>module := (module v)
         \<lparr>cleanupFunctions :=
            filter (\<lambda>t. t \<notin> set (localCleanupFunctions v))
              (cleanupFunctions (module v)),
          armed :=
            filter (\<lambda>t. t \<notin> set (localCleanupFunctions v)) (armed (module v))\<rparr>\<rparr>"

definition retryOperation ::
  "retry_options \<Rightarrow> (int \<Rightarrow> bool) \<Rightarrow> ('w \<Rightarrow> ('e + 'a) \<times> 'w) \<Rightarrow> retry_module \<Rightarrow> 'w \<Rightarrow>
   ('e, 'a) retry_outcome \<times> 'w retry_vars" where
  "retryOperation opts sig operation m w =
     (let v0 = \<lparr>world = w, module = m, calls = 0, delays = [],
                localCleanupFunctions = []\<rparr> in
      if maxRetries opts < 1 then (Threw InvalidMaxRetries, v0)
      else if baseDelay opts < 0 \<or> maxDelay opts < 0 then (Threw InvalidDelay, v0)
      else
        (let r = retry_loop opts sig operation 0 None v0 in
         case fst r of
           NeverSettled \<Rightarrow> r
         | _ \<Rightarrow> (fst r, retry_finally (snd r))))"

text \<open>The state of the module when it has been loaded and no signal has arrived.\<close>

definition fresh_module :: retry_module where
  "fresh_module =
     \<lparr>isAborting = False, cleanupFunctions = [], armed = [], next_timer = 0,
      exited = False\<rparr>"

text \<open>
  The world after \<open>n\<close> invocations of the operation, and the error thrown by the
  invocation made in a given world (when it throws).
\<close>

definition world_after :: "('w \<Rightarrow> ('e + 'a) \<times> 'w) \<Rightarrow> nat \<Rightarrow> 'w \<Rightarrow> 'w" where
  "world_after operation n w = ((\<lambda>x. snd (operation x)) ^^ n) w"

definition always_fails :: "('w \<Rightarrow> ('e + 'a) \<times> 'w) \<Rightarrow> bool" where
  "always_fails operation = (\<forall>w. isl (fst (operation w)))"

definition valid_retry_options :: "retry_options \<Rightarrow> bool" where
  "valid_retry_options opts = (1 \<le> maxRetries opts \<and> 0 \<le> baseDelay opts \<and> 0 \<le> maxDelay opts)"

text \<open>
  An operation that throws on every invocation: the world counts the invocations and the
  error names the invocation that threw it.
\<close>

definition failing_op :: "nat \<Rightarrow> (string + unit) \<times> nat" where
  "failing_op w =
     (Inl (if w = 0 then ''e0'' else if w = 1 then ''e1'' else ''e2''), Suc w)"

section \<open>The task queue (class TaskQueue)\<close>

text \<open>
  A queue item is the object built in \<open>add\<close>. It carries the task closure, the priority,
  the \<open>cancelled\<close> flag and the timestamp; \<open>item_id\<close> names the item and the promise
  that \<open>add\<close> returned for it (its \<open>resolve\<close> and \<open>reject\<close>).
\<close>

record 't queue_item =
  item_id :: nat
  task :: 't
  priority :: int
  cancelled :: bool
  timestamp :: int

text \<open>The reasons a promise returned by \<open>add\<close> is rejected with.\<close>

datatype 'e queue_error =
    QueueStopped
  | WaitTimeout
  | TaskCancelled
  | QueueStoppedPending
  | TaskFailed 'e

text \<open>
  The fields of the class, and the part of the runtime the class talks to:
  \<open>active\<close> lists the items whose task has been invoked and has not finished (the
  continuations suspended at \<open>await item.task()\<close>), \<open>started\<close> the items whose \<open>started\<close>
  flag is set, \<open>immediates\<close> counts the scheduled \<open>setImmediate(() => this.process())\<close>
  callbacks, \<open>timeouts\<close> lists the armed enqueue timers, and \<open>settled\<close> is the log of
  promise settlements in the order they happened (a promise settles once: later calls
  of \<open>resolve\<close> or \<open>reject\<close> have no effect).
\<close>

record ('t, 'e, 'r) task_queue =
  concurrency :: int
  running :: int
  queue :: "'t queue_item list"
  results :: "'r list"
  errors :: "'e list"
  isStopped :: bool
  maxStoredResults :: nat
  completedCount :: nat
  next_id :: nat
  active :: "nat list"
  started :: "nat list"
  immediates :: nat
  timeouts :: "nat list"
  settled :: "(nat \<times> ('e queue_error + 'r)) list"

definition new_TaskQueue :: "int \<Rightarrow> ('t, 'e, 'r) task_queue" where
  "new_TaskQueue c =
     \<lparr>concurrency = c, running = 0, queue = [], results = [], errors = [],
      isStopped = False, maxStoredResults = 1000, completedCount = 0, next_id = 0,
      active = [], started = [], immediates = 0, timeouts = [], settled = []\<rparr>"

text \<open>The exported instance: \<open>new TaskQueue()\<close> with the default concurrency.\<close>

definition taskQueue :: "('t, 'e, 'r) task_queue" where
  "taskQueue = new_TaskQueue 32"

definition is_settled :: "('t, 'e, 'r) task_queue \<Rightarrow> nat \<Rightarrow> bool" where
  "is_settled s i = (map_of (settled s) i \<noteq> None)"

definition settle ::
  "nat \<Rightarrow> ('e queue_error + 'r) \<Rightarrow> ('t, 'e, 'r) task_queue \<Rightarrow> ('t, 'e, 'r) task_queue" where
  "settle i out s = (if is_settled s i then s else s\<lparr>settled := settled s @ [(i, out)]\<rparr>)"

text \<open>
  \<open>queue.sort((a, b) => b.priority - a.priority || a.timestamp - b.timestamp)\<close>: a stable
  sort, higher priority first and then older timestamp first.
\<close>

text \<open>
  \<open>insert_sorted x ys\<close> puts \<open>x\<close> before the first item the comparator orders after it,
  so items that compare equal keep the order in which they were inserted.
\<close>

fun insert_sorted :: "'t queue_item \<Rightarrow> 't queue_item list \<Rightarrow> 't queue_item list" where
  "insert_sorted x [] = [x]"
| "insert_sorted x (y # ys) =
     (if priority y < priority x \<or> (priority y = priority x \<and> timestamp x < timestamp y)
      then x # y # ys else y # insert_sorted x ys)"

definition sort_queue :: "'t queue_item list \<Rightarrow> 't queue_item list" where
  "sort_queue xs = foldl (\<lambda>acc x. insert_sorted x acc) [] xs"

text \<open>
  \<open>process()\<close> up to its first suspension: the guard, \<open>shift\<close>, the skip of a cancelled
  item, and the admission (\<open>running++\<close>, \<open>started\<close>, \<open>clearTimeout\<close>, the call of the task).
\<close>

definition process :: "('t, 'e, 'r) task_queue \<Rightarrow> ('t, 'e, 'r) task_queue" where
  "process s =
     (if concurrency s \<le> running s \<or> queue s = [] \<or> isStopped s then s
      else
        (let item = hd (queue s); s1 = s\<lparr>queue := tl (queue s)\<rparr> in
         if cancelled item then s1\<lparr>immediates := Suc (immediates s1)\<rparr>
         else s1\<lparr>running := running s1 + 1,
                 started := item_id item # started s1,
                 timeouts := removeAll (item_id item) (timeouts s1),
                 active := active s1 @ [item_id item]\<rparr>))"

text \<open>
  \<open>add(task, priority, timeout)\<close> called at time \<open>now\<close>: the executor of the new promise.
  The result is the id of the promise and the new state.
\<close>

definition add ::
  "'t \<Rightarrow> int \<Rightarrow> int \<Rightarrow> int \<Rightarrow> ('t, 'e, 'r) task_queue \<Rightarrow> nat \<times> ('t, 'e, 'r) task_queue" where
  "add t prio timeout now s =
     (let i = next_id s; s0 = s\<lparr>next_id := Suc i\<rparr> in
      if isStopped s0 then (i, settle i (Inl QueueStopped) s0)
      else
        (let item = \<lparr>item_id = i, task = t, priority = prio, cancelled = False,
                     timestamp = now\<rparr>;
             s1 = (if 0 < timeout then s0\<lparr>timeouts := i # timeouts s0\<rparr> else s0);
             s2 = s1\<lparr>queue := sort_queue (queue s1 @ [item])\<rparr>
         in (i, process s2)))"

text \<open>
  The continuation of \<open>process()\<close> when the task of an admitted item finishes: the
  \<open>try\<close>/\<open>catch\<close>/\<open>finally\<close> and the trimming of the two windows. \<open>Inr r\<close> is a task that
  returned \<open>r\<close>, \<open>Inl e\<close> one that threw \<open>e\<close>.
\<close>

definition trim :: "nat \<Rightarrow> 'a list \<Rightarrow> 'a list" where
  "trim n xs = (if n < length xs \<and> 0 < n then drop (length xs - n) xs else xs)"

definition finish ::
  "nat \<Rightarrow> ('e + 'r) \<Rightarrow> ('t, 'e, 'r) task_queue \<Rightarrow> ('t, 'e, 'r) task_queue" where
  "finish i out s =
     (let s1 = (case out of
                  Inr r \<Rightarrow> settle i (Inr r)
                            (s\<lparr>results := results s @ [r],
                               completedCount := Suc (completedCount s)\<rparr>)
                | Inl e \<Rightarrow> settle i (Inl (TaskFailed e)) (s\<lparr>errors := errors s @ [e]\<rparr>));
          s2 = s1\<lparr>running := running s1 - 1,
                  immediates := Suc (immediates s1),
                  active := remove1 i (active s1)\<rparr>
      in s2\<lparr>results := trim (maxStoredResults s2) (results s2),
             errors := trim (maxStoredResults s2) (errors s2)\<rparr>)"

text \<open>The callback of an enqueue timer.\<close>

definition timeout_fires :: "nat \<Rightarrow> ('t, 'e, 'r) task_queue \<Rightarrow> ('t, 'e, 'r) task_queue" where
  "timeout_fires i s =
     (let s1 = s\<lparr>timeouts := removeAll i (timeouts s)\<rparr> in
      if i \<in> set (started s1) then s1
      else settle i (Inl WaitTimeout)
             (s1\<lparr>queue := map (\<lambda>q. if item_id q = i then q\<lparr>cancelled := True\<rparr> else q)
                              (queue s1)\<rparr>))"

text \<open>\<open>cancel(predicate)\<close>; the count it returns is not modelled.\<close>

definition cancel :: "('t \<Rightarrow> bool) \<Rightarrow> ('t, 'e, 'r) task_queue \<Rightarrow> ('t, 'e, 'r) task_queue" where
  "cancel p s =
     (let hit = filter (\<lambda>q. p (task q)) (queue s);
          s1 = fold (\<lambda>q. settle (item_id q) (Inl TaskCancelled)) hit s
      in s1\<lparr>queue := filter (\<lambda>q. \<not> p (task q) \<and> \<not> cancelled q) (queue s1)\<rparr>)"

definition stop :: "('t, 'e, 'r) task_queue \<Rightarrow> ('t, 'e, 'r) task_queue" where
  "stop s =
     (fold (\<lambda>q. settle (item_id q) (Inl QueueStoppedPending)) (queue s)
        (s\<lparr>isStopped := True\<rparr>))\<lparr>queue := []\<rparr>"

definition resume :: "('t, 'e, 'r) task_queue \<Rightarrow> ('t, 'e, 'r) task_queue" where
  "resume s = s\<lparr>isStopped := False\<rparr>"

definition clear :: "('t, 'e, 'r) task_queue \<Rightarrow> ('t, 'e, 'r) task_queue" where
  "clear s = s\<lparr>queue := [], results := [], errors := []\<rparr>"

definition setConcurrency :: "int \<Rightarrow> ('t, 'e, 'r) task_queue \<Rightarrow> ('t, 'e, 'r) task_queue" where
  "setConcurrency c s = s\<lparr>concurrency := c, immediates := Suc (immediates s)\<rparr>"

text \<open>
  What can happen to a queue: a call of one of its methods, a scheduled \<open>process()\<close>
  callback running, an enqueue timer firing, or the task of an admitted item finishing.
  An event that cannot happen in a state (no callback scheduled, timer not armed, item
  not running) leaves the state as it is.
\<close>

datatype ('t, 'e, 'r) queue_event =
    Add 't int int int
  | Immediate
  | Finish nat "'e + 'r"
  | TimeoutFires nat
  | Cancel "'t \<Rightarrow> bool"
  | Stop
  | Resume
  | Clear
  | SetConcurrency int

fun queue_step ::
  "('t, 'e, 'r) task_queue \<Rightarrow> ('t, 'e, 'r) queue_event \<Rightarrow> ('t, 'e, 'r) task_queue" where
  "queue_step s (Add t prio timeout now) = snd (add t prio timeout now s)"
| "queue_step s Immediate =
     (if 0 < immediates s then process (s\<lparr>immediates := immediates s - 1\<rparr>) else s)"
| "queue_step s (Finish i out) = (if i \<in> set (active s) then finish i out s else s)"
| "queue_step s (TimeoutFires i) = (if i \<in> set (timeouts s) then timeout_fires i s else s)"
| "queue_step s (Cancel p) = cancel p s"
| "queue_step s Stop = stop s"
| "queue_step s Resume = resume s"
| "queue_step s Clear = clear s"
| "queue_step s (SetConcurrency c) = setConcurrency c s"

definition queue_run ::
  "('t, 'e, 'r) task_queue \<Rightarrow> ('t, 'e, 'r) queue_event list \<Rightarrow> ('t, 'e, 'r) task_queue" where
  "queue_run s evs = foldl queue_step s evs"

fun is_SetConcurrency :: "('t, 'e, 'r) queue_event \<Rightarrow> bool" where
  "is_SetConcurrency (SetConcurrency c) = True"
| "is_SetConcurrency _ = False"







text \<open>
  The counter \<open>running\<close> is the number of tasks in flight, and it is within the limit.
\<close>

definition bounded :: "('t, 'e, 'r) task_queue \<Rightarrow> bool" where
  "bounded s = (running s = int (length (active s)) \<and> running s \<le> concurrency s)"






section \<open>The two-tier cache (class Cache)\<close>

text \<open>
  Keys are the digests computed by \<open>generateKey\<close>; the digest function is taken to be
  injective, so a cache key stands for the caller's key. Times are milliseconds as
  integers. An optional \<open>maxAge\<close> is \<open>None\<close> when the property is undefined.
\<close>

record 'v memory_item =
  data :: 'v
  item_timestamp :: int
  item_maxAge :: "int option"

text \<open>
  The parsed content of a cache file, and the file: \<open>content = None\<close> is a file that
  \<open>JSON.parse\<close> rejects; \<open>mtimeMs\<close> is the modification time reported by \<open>stat\<close>.
\<close>

record 'v file_content =
  file_data :: 'v
  file_maxAge :: "int option"
  file_timestamp :: int

record 'v cache_file =
  content :: "'v file_content option"
  mtimeMs :: int

text \<open>
  The fields of the class. \<open>memoryCache\<close> (a \<open>Map\<close>) is an association list with one
  entry per key, \<open>disk\<close> holds the \<open>.json\<close> files of the cache directory by key.
\<close>

record ('k, 'v) cache =
  memoryCache :: "('k \<times> 'v memory_item) list"
  accessOrder :: "'k list"
  maxMemoryItems :: int
  maxFileAge :: int
  disk :: "('k \<times> 'v cache_file) list"

text \<open>An initialised cache with nothing in it.\<close>

definition new_Cache :: "int \<Rightarrow> int \<Rightarrow> ('k, 'v) cache" where
  "new_Cache maxItems maxAge =
     \<lparr>memoryCache = [], accessOrder = [], maxMemoryItems = maxItems, maxFileAge = maxAge,
      disk = []\<rparr>"

text \<open>JavaScript truthiness of an optional number, and \<open>a || b\<close> on two of them.\<close>

definition truthy :: "int option \<Rightarrow> bool" where
  "truthy a = (case a of None \<Rightarrow> False | Some x \<Rightarrow> x \<noteq> 0)"

definition js_or :: "int option \<Rightarrow> int option \<Rightarrow> int option" where
  "js_or a b = (if truthy a then a else b)"

text \<open>\<open>isExpired(item, maxAge)\<close> evaluated at time \<open>now\<close>.\<close>

definition isExpired :: "('k, 'v) cache \<Rightarrow> int \<Rightarrow> int \<Rightarrow> int option \<Rightarrow> bool" where
  "isExpired c now ts maxAge =
     (now - ts > (if truthy maxAge then the maxAge else maxFileAge c))"

definition removeFromAccessOrder :: "'k \<Rightarrow> ('k, 'v) cache \<Rightarrow> ('k, 'v) cache" where
  "removeFromAccessOrder k c = c\<lparr>accessOrder := remove1 k (accessOrder c)\<rparr>"

definition updateAccessOrder :: "'k \<Rightarrow> ('k, 'v) cache \<Rightarrow> ('k, 'v) cache" where
  "updateAccessOrder k c =
     (let c1 = removeFromAccessOrder k c in c1\<lparr>accessOrder := accessOrder c1 @ [k]\<rparr>)"

definition mem_has :: "('k, 'v) cache \<Rightarrow> 'k \<Rightarrow> bool" where
  "mem_has c k = (map_of (memoryCache c) k \<noteq> None)"

definition mem_keys :: "('k, 'v) cache \<Rightarrow> 'k set" where
  "mem_keys c = fst ` set (memoryCache c)"

definition mem_size :: "('k, 'v) cache \<Rightarrow> int" where
  "mem_size c = int (length (memoryCache c))"

definition setMemoryCache ::
  "'k \<Rightarrow> 'v \<Rightarrow> int option \<Rightarrow> int \<Rightarrow> ('k, 'v) cache \<Rightarrow> ('k, 'v) cache" where
  "setMemoryCache k d maxAge now c =
     (let c1 =
        (if maxMemoryItems c \<le> mem_size c \<and> \<not> mem_has c k then
           (case accessOrder c of
              [] \<Rightarrow> c
            | oldestKey # rest \<Rightarrow>
                c\<lparr>accessOrder := rest,
                  memoryCache := AList.delete oldestKey (memoryCache c)\<rparr>)
         else c);
          c2 = c1\<lparr>memoryCache :=
                    AList.update k \<lparr>data = d, item_timestamp = now, item_maxAge = maxAge\<rparr>
                      (memoryCache c1)\<rparr>
      in updateAccessOrder k c2)"

text \<open>
  \<open>get(key, options)\<close> at time \<open>now\<close>, with \<open>optMaxAge\<close> the \<open>maxAge\<close> of the options.
  The first part is the memory tier, the second the file tier. \<open>None\<close> is \<open>null\<close>.
\<close>

definition get_memory ::
  "'k \<Rightarrow> int option \<Rightarrow> int \<Rightarrow> ('k, 'v) cache \<Rightarrow> 'v option \<times> ('k, 'v) cache" where
  "get_memory k optMaxAge now c =
     (case map_of (memoryCache c) k of
        None \<Rightarrow> (None, c)
      | Some item \<Rightarrow>
          if \<not> isExpired c now (item_timestamp item) (js_or (item_maxAge item) optMaxAge)
          then (Some (data item), updateAccessOrder k c)
          else (None, removeFromAccessOrder k
                        (c\<lparr>memoryCache := AList.delete k (memoryCache c)\<rparr>)))"

definition get_file ::
  "'k \<Rightarrow> int option \<Rightarrow> int \<Rightarrow> ('k, 'v) cache \<Rightarrow> 'v option \<times> ('k, 'v) cache" where
  "get_file k optMaxAge now c =
     (case map_of (disk c) k of
        None \<Rightarrow> (None, c)
      | Some f \<Rightarrow>
          (case content f of
             None \<Rightarrow> (None, c)
           | Some fd \<Rightarrow>
               (let maxAge = js_or (file_maxAge fd) optMaxAge in
                if \<not> isExpired c now (mtimeMs f) maxAge
                then (Some (file_data fd), setMemoryCache k (file_data fd) maxAge now c)
                else (None, c\<lparr>disk := AList.delete k (disk c)\<rparr>))))"

definition cache_get ::
  "'k \<Rightarrow> int option \<Rightarrow> int \<Rightarrow> ('k, 'v) cache \<Rightarrow> 'v option \<times> ('k, 'v) cache" where
  "cache_get k optMaxAge now c =
     (let m = get_memory k optMaxAge now c in
      case fst m of
        Some d \<Rightarrow> m
      | None \<Rightarrow> get_file k optMaxAge now (snd m))"

text \<open>
  \<open>set(key, data, options)\<close> at time \<open>now\<close>. \<open>write_ok\<close> says whether writing the
  temporary file and renaming it succeed; a failure is caught and logged, and the cache
  directory keeps the files it had.
\<close>

definition cache_set ::
  "'k \<Rightarrow> 'v \<Rightarrow> int option \<Rightarrow> bool \<Rightarrow> int \<Rightarrow> ('k, 'v) cache \<Rightarrow> ('k, 'v) cache" where
  "cache_set k d maxAge write_ok now c =
     (let c1 = setMemoryCache k d maxAge now c in
      if write_ok then
        c1\<lparr>disk := AList.update k
                \<lparr>content = Some \<lparr>file_data = d, file_maxAge = maxAge, file_timestamp = now\<rparr>,
                 mtimeMs = now\<rparr> (disk c1)\<rparr>
      else c1)"

text \<open>
  \<open>cleanup()\<close> at time \<open>now\<close>: what the callback decides for one \<open>.json\<close> file, and the
  sweep over the directory.
\<close>

definition cleanup_deletes :: "('k, 'v) cache \<Rightarrow> int \<Rightarrow> 'v cache_file \<Rightarrow> bool" where
  "cleanup_deletes c now f =
     (if now - mtimeMs f > maxFileAge c then True
      else
        (case content f of
           None \<Rightarrow> True
         | Some fd \<Rightarrow> truthy (file_maxAge fd) \<and> now - file_timestamp fd > the (file_maxAge fd)))"

definition cleanup :: "int \<Rightarrow> ('k, 'v) cache \<Rightarrow> ('k, 'v) cache" where
  "cleanup now c = c\<lparr>disk := filter (\<lambda>p. \<not> cleanup_deletes c now (snd p)) (disk c)\<rparr>"

text \<open>Sequences of operations. A step returns the new cache and the keys it touched.\<close>

datatype ('k, 'v) cache_op =
    Get 'k "int option" int
  | Set 'k 'v "int option" bool int
  | Cleanup int

fun cache_step :: "('k, 'v) cache \<Rightarrow> ('k, 'v) cache_op \<Rightarrow> ('k, 'v) cache" where
  "cache_step c (Get k optMaxAge now) = snd (cache_get k optMaxAge now c)"
| "cache_step c (Set k d maxAge write_ok now) = cache_set k d maxAge write_ok now c"
| "cache_step c (Cleanup now) = cleanup now c"


fun cache_run :: "('k, 'v) cache \<Rightarrow> ('k, 'v) cache_op list \<Rightarrow> ('k, 'v) cache" where
  "cache_run c [] = c"
| "cache_run c (op # ops) = cache_run (cache_step c op) ops"


text \<open>
  When a key was last touched: the position (from 1) of its last occurrence in the log
  of touches, 0 for a key that was never touched.
\<close>

definition last_touch :: "'k list \<Rightarrow> 'k \<Rightarrow> nat" where
  "last_touch log k = length (dropWhile (\<lambda>x. x \<noteq> k) (rev log))"

text \<open>
  The memory tier is consistent with the log of touches: one entry per key, the access
  order lists exactly the keys held, oldest touch first.
\<close>

definition lru_consistent :: "('k, 'v) cache \<Rightarrow> 'k list \<Rightarrow> bool" where
  "lru_consistent c log =
     (distinct (map fst (memoryCache c)) \<and>
      distinct (accessOrder c) \<and>
      set (accessOrder c) = mem_keys c \<and>
      sorted_wrt (\<lambda>a b. last_touch log a < last_touch log b) (accessOrder c) \<and>
      list_all (\<lambda>k. last_touch log k \<le> length log) (accessOrder c))"


text \<open>
  Examples. A cache bounded at 2 after two \<open>set\<close>s and a \<open>get\<close> of the older key; a
  cache bounded at 1 where a key is set, evicted by a second key and read back twice;
  a cache whose default max-age is 100 holding an entry set with max-age 200.
\<close>

definition lru_example :: "(string, nat) cache" where
  "lru_example =
     cache_run (new_Cache 2 100)
       [Set ''a'' 1 None True 0, Set ''b'' 2 None True 1, Get ''a'' None 2]"

definition stale_example :: "(string, nat) cache" where
  "stale_example =
     cache_run (new_Cache 1 100)
       [Set ''k1'' 1 None True 0, Set ''k2'' 2 None True 10, Get ''k1'' None 90]"

definition override_example :: "(string, nat) cache" where
  "override_example = cache_run (new_Cache 1000 100) [Set ''k'' 1 (Some 200) True 0]"

section \<open>The file system and path functions used by the pipeline\<close>

text \<open>
  A path is an absolute, normalised path (what \<open>path.resolve\<close> returns, as the source and
  output directories of the configuration are), given as the list of its components below
  the root. \<open>path.dirname\<close> is \<open>butlast\<close> and \<open>path.basename\<close> is \<open>last\<close>, and
  \<open>path.join(dir, name)\<close> is \<open>dir @ [name]\<close> where \<open>name\<close> is a directory entry or is
  built from one; for an arbitrary string it is \<open>path_join\<close> below. The file system is
  an association list from paths to nodes; the root is a directory. File contents are of
  an arbitrary type.
\<close>

type_synonym path = "string list"

datatype 'c node = File 'c | Dir

type_synonym 'c filesystem = "(path \<times> 'c node) list"

datatype fs_error = ENOENT | EEXIST | ENOTDIR | EISDIR | EINVAL | EIO

definition lookup :: "'c filesystem \<Rightarrow> path \<Rightarrow> 'c node option" where
  "lookup fs p = (if p = [] then Some Dir else map_of fs p)"

definition fs_exists :: "'c filesystem \<Rightarrow> path \<Rightarrow> bool" where
  "fs_exists fs p = (lookup fs p \<noteq> None)"

definition is_dir :: "'c filesystem \<Rightarrow> path \<Rightarrow> bool" where
  "is_dir fs p = (lookup fs p = Some Dir)"

text \<open>A path is inside (or is) the directory \<open>d\<close>.\<close>

definition inside :: "path \<Rightarrow> path \<Rightarrow> bool" where
  "inside d p = (take (length d) p = d)"

text \<open>
  \<open>path.join(dir, s)\<close> (POSIX) for an arbitrary string \<open>s\<close>: the string is cut at every
  \<open>/\<close> and the whole is normalised as \<open>path.normalize\<close> does for an absolute path. An
  empty component and \<open>.\<close> are dropped, and \<open>..\<close> drops the component before it (at the
  root there is none, and \<open>..\<close> is dropped). So \<open>path.join(dir, '')\<close> is \<open>dir\<close> and
  \<open>path.join(dir, '..')\<close> is the parent of \<open>dir\<close>. A trailing separator, which
  \<open>path.join\<close> keeps, names the same directory and is not represented.
\<close>

definition split_sep :: "string \<Rightarrow> string list" where
  "split_sep s =
     foldr (\<lambda>c acc. if c = CHR ''/'' then [] # acc else (c # hd acc) # tl acc) s [[]]"

definition norm_step :: "path \<Rightarrow> string \<Rightarrow> path" where
  "norm_step acc c =
     (if c = [] \<or> c = ''.'' then acc
      else if c = ''..'' then butlast acc
      else acc @ [c])"

definition path_join :: "path \<Rightarrow> string \<Rightarrow> path" where
  "path_join dir s = foldl norm_step dir (split_sep s)"

text \<open>
  \<open>fs.mkdir(dir, { recursive: true })\<close>: every missing directory on the way is created;
  a file on the way is an error (\<open>EEXIST\<close> when it is the directory asked for).
\<close>

fun mkdirs :: "'c filesystem \<Rightarrow> path list \<Rightarrow> fs_error + 'c filesystem" where
  "mkdirs fs [] = Inr fs"
| "mkdirs fs (p # ps) =
     (case lookup fs p of
        Some (File c) \<Rightarrow> Inl (if ps = [] then EEXIST else ENOTDIR)
      | Some Dir \<Rightarrow> mkdirs fs ps
      | None \<Rightarrow> mkdirs (fs @ [(p, Dir)]) ps)"

definition mkdir_p :: "'c filesystem \<Rightarrow> path \<Rightarrow> fs_error + 'c filesystem" where
  "mkdir_p fs d = mkdirs fs (tl (prefixes d))"

text \<open>\<open>fs.writeFile(path, data)\<close>.\<close>

definition write_file :: "'c filesystem \<Rightarrow> path \<Rightarrow> 'c \<Rightarrow> fs_error + 'c filesystem" where
  "write_file fs p c =
     (if \<not> is_dir fs (butlast p) then Inl ENOENT
      else if is_dir fs p then Inl EISDIR
      else Inr (AList.update p (File c) fs))"

text \<open>\<open>fs.readdir(dir)\<close>: the names of the entries directly in \<open>dir\<close>.\<close>

definition readdir :: "'c filesystem \<Rightarrow> path \<Rightarrow> fs_error + string list" where
  "readdir fs d =
     (if is_dir fs d
      then Inr (map (\<lambda>e. last (fst e)) (filter (\<lambda>e. fst e \<noteq> [] \<and> butlast (fst e) = d) fs))
      else if fs_exists fs d then Inl ENOTDIR else Inl ENOENT)"

text \<open>
  \<open>fs.rename(src, dst)\<close>: the node at \<open>src\<close>, with everything below it, moves to \<open>dst\<close>; a
  file at \<open>dst\<close> is replaced by a file.
\<close>

definition reprefix :: "path \<Rightarrow> path \<Rightarrow> path \<times> 'c node \<Rightarrow> path \<times> 'c node" where
  "reprefix src dst e =
     (if inside src (fst e) then (dst @ drop (length src) (fst e), snd e) else e)"

definition rename :: "'c filesystem \<Rightarrow> path \<Rightarrow> path \<Rightarrow> fs_error + 'c filesystem" where
  "rename fs src dst =
     (if src = [] \<or> \<not> fs_exists fs src then Inl ENOENT
      else if src = dst then Inr fs
      else if inside src dst then Inl EINVAL
      else if \<not> is_dir fs (butlast dst) then Inl ENOENT
      else if is_dir fs dst then Inl EISDIR
      else if fs_exists fs dst \<and> is_dir fs src then Inl ENOTDIR
      else Inr (map (reprefix src dst) (AList.delete dst fs)))"

text \<open>\<open>fs.copyFile(src, dst)\<close>.\<close>

definition copy_file :: "'c filesystem \<Rightarrow> path \<Rightarrow> path \<Rightarrow> fs_error + 'c filesystem" where
  "copy_file fs src dst =
     (case lookup fs src of
        None \<Rightarrow> Inl ENOENT
      | Some Dir \<Rightarrow> Inl EISDIR
      | Some (File c) \<Rightarrow>
          if \<not> is_dir fs (butlast dst) then Inl ENOENT
          else if is_dir fs dst then Inl EISDIR
          else Inr (AList.update dst (File c) fs))"

text \<open>\<open>fs.unlink(path)\<close>.\<close>

definition unlink :: "'c filesystem \<Rightarrow> path \<Rightarrow> fs_error + 'c filesystem" where
  "unlink fs p =
     (case lookup fs p of
        None \<Rightarrow> Inl ENOENT
      | Some Dir \<Rightarrow> Inl EISDIR
      | Some (File c) \<Rightarrow> Inr (AList.delete p fs))"

text \<open>
  \<open>fs.rm(dir, { recursive: true, force: true })\<close>, and \<open>trash(path)\<close>, which takes the
  node and everything below it out of the tree.
\<close>

definition rm_rf :: "'c filesystem \<Rightarrow> path \<Rightarrow> 'c filesystem" where
  "rm_rf fs d = filter (\<lambda>e. \<not> inside d (fst e)) fs"

definition trash :: "'c filesystem \<Rightarrow> path \<Rightarrow> fs_error + 'c filesystem" where
  "trash fs p = (if fs_exists fs p \<and> p \<noteq> [] then Inr (rm_rf fs p) else Inl ENOENT)"

text \<open>
  \<open>path.extname\<close> of a single component: from the last dot to the end; empty when there
  is no dot, when the only dot is the first character, and for the name \<open>..\<close>.
\<close>

definition extname :: "string \<Rightarrow> string" where
  "extname s =
     (if CHR ''.'' \<notin> set s \<or> s = ''..'' then []
      else
        (let e = CHR ''.'' # rev (takeWhile (\<lambda>c. c \<noteq> CHR ''.'') (rev s))
         in if length e = length s then [] else e))"

text \<open>\<open>path.parse(fileName).name\<close>: the component without its extension.\<close>

definition parse_name :: "string \<Rightarrow> string" where
  "parse_name s = take (length s - length (extname s)) s"

definition lower_char :: "char \<Rightarrow> char" where
  "lower_char c =
     (case map_of (zip ''ABCDEFGHIJKLMNOPQRSTUVWXYZ'' ''abcdefghijklmnopqrstuvwxyz'') c of
        Some l \<Rightarrow> l
      | None \<Rightarrow> c)"

definition toLowerCase :: "string \<Rightarrow> string" where
  "toLowerCase s = map lower_char s"

text \<open>A number in a template string: its decimal digits.\<close>

definition digit_char :: "nat \<Rightarrow> char" where
  "digit_char d = ''0123456789'' ! d"

function show_nat :: "nat \<Rightarrow> string" where
  "show_nat n = (if n < 10 then [digit_char n] else show_nat (n div 10) @ [digit_char (n mod 10)])"
  by pat_completeness auto
termination
  by (relation "measure id") auto

declare show_nat.simps [simp del]

text \<open>The candidate \<open>`${name} (${counter})${ext}`\<close> in the target directory.\<close>

definition numbered :: "path \<Rightarrow> string \<Rightarrow> nat \<Rightarrow> path" where
  "numbered dir fileName counter =
     dir @ [parse_name fileName @ '' ('' @ show_nat counter @ '')'' @ extname fileName]"

subsection \<open>Decimal numerals are distinct\<close>

definition digit_val :: "char \<Rightarrow> nat" where
  "digit_val c = length (takeWhile (\<lambda>x. x \<noteq> c) ''0123456789'')"

definition read_nat :: "string \<Rightarrow> nat" where
  "read_nat s = foldl (\<lambda>a c. 10 * a + digit_val c) 0 s"

lemma digit_val_digit_char:
  assumes "d < 10"
  shows "digit_val (digit_char d) = d"
proof -
  from assms have "d \<in> {0, 1, 2, 3, 4, 5, 6, 7, 8, 9}" by auto
  then show ?thesis
    by (elim insertE emptyE) (simp_all add: digit_val_def digit_char_def)
qed

lemma read_nat_show_nat: "read_nat (show_nat n) = n"
proof (induction n rule: show_nat.induct)
  case (1 n)
  show ?case
  proof (cases "n < 10")
    case True
    then show ?thesis
      by (subst show_nat.simps) (simp add: read_nat_def digit_val_digit_char)
  next
    case False
    have "read_nat (show_nat (n div 10) @ [digit_char (n mod 10)]) =
            10 * read_nat (show_nat (n div 10)) + digit_val (digit_char (n mod 10))"
      by (simp add: read_nat_def)
    also have "\<dots> = 10 * (n div 10) + n mod 10"
      using "1.IH" [OF False] by (simp add: digit_val_digit_char)
    also have "\<dots> = n" by simp
    finally show ?thesis using False by (subst show_nat.simps) simp
  qed
qed

lemma show_nat_inject:
  assumes "show_nat a = show_nat b"
  shows "a = b"
proof -
  have "read_nat (show_nat a) = read_nat (show_nat b)" by (simp only: assms)
  then show ?thesis by (simp only: read_nat_show_nat)
qed

lemma numbered_inject: "numbered dir fileName a = numbered dir fileName b \<Longrightarrow> a = b"
  by (simp add: numbered_def show_nat_inject)

lemma finite_taken_numbers:
  "finite {k. fs_exists fs (numbered dir fileName k)}"
proof -
  have "inj (numbered dir fileName)"
    by (rule injI) (rule numbered_inject)
  then have "finite (numbered dir fileName -` (insert [] (fst ` set fs)))"
    by (intro finite_vimageI) simp_all
  moreover have "{k. fs_exists fs (numbered dir fileName k)}
                   \<subseteq> numbered dir fileName -` (insert [] (fst ` set fs))"
  proof
    fix k assume "k \<in> {k. fs_exists fs (numbered dir fileName k)}"
    then have "map_of fs (numbered dir fileName k) \<noteq> None"
      by (simp add: fs_exists_def lookup_def numbered_def)
    then have "numbered dir fileName k \<in> fst ` set fs"
      by (simp add: map_of_eq_None_iff)
    then show "k \<in> numbered dir fileName -` (insert [] (fst ` set fs))" by simp
  qed
  ultimately show ?thesis by (rule rev_finite_subset)
qed

subsection \<open>FileUtils.moveFile\<close>

text \<open>
  The loop \<open>while (await this.fileExists(targetPath)) { targetPath = ...; counter++ }\<close>.
  It ends because the candidates are distinct and the file system is finite.
\<close>

function find_free :: "'c filesystem \<Rightarrow> path \<Rightarrow> string \<Rightarrow> nat \<Rightarrow> path \<Rightarrow> path" where
  "find_free fs dir fileName counter targetPath =
     (if fs_exists fs targetPath
      then find_free fs dir fileName (Suc counter) (numbered dir fileName counter)
      else targetPath)"
  by pat_completeness auto
termination
proof (relation "measure (\<lambda>(fs, dir, fileName, counter, targetPath).
         2 * card {k. counter \<le> k \<and> fs_exists fs (numbered dir fileName k)}
         + (if fs_exists fs targetPath then 1 else 0))", goal_cases)
  case 1
  show ?case by simp
next
  case (2 fs dir fileName counter targetPath)
  let ?A = "{k. Suc counter \<le> k \<and> fs_exists fs (numbered dir fileName k)}"
  let ?B = "{k. counter \<le> k \<and> fs_exists fs (numbered dir fileName k)}"
  have fin: "finite ?A"
    by (rule rev_finite_subset [OF finite_taken_numbers [of fs dir fileName]]) auto
  show ?case
  proof (cases "fs_exists fs (numbered dir fileName counter)")
    case True
    then have "?B = insert counter ?A" by (auto simp: le_Suc_eq)
    moreover have "counter \<notin> ?A" by simp
    ultimately have "card ?B = Suc (card ?A)" using fin by simp
    then show ?thesis using 2 True by simp
  next
    case False
    then have "?B = ?A"
      by (auto simp: Suc_le_eq order_le_less)
    then show ?thesis using 2 False by simp
  qed
qed

declare find_free.simps [simp del]

text \<open>
  The options object. \<open>moveFile\<close> destructures \<open>useSafeDelete\<close>, \<open>overwrite\<close> and
  \<open>createDir\<close> only; a \<open>newName\<close> property is accepted and never read.
\<close>

record move_options =
  useSafeDelete :: bool
  overwrite :: bool
  createDir :: bool
  newName :: "string option"

text \<open>
  What the environment decides for one call: whether source and target directory are on
  different devices, and whether \<open>rename\<close>, \<open>copyFile\<close> or the deletion of the source
  fails for a reason outside the modelled tree (permissions, I/O errors).
\<close>

record move_io =
  cross_device :: bool
  rename_fault :: bool
  copy_fault :: bool
  delete_fault :: bool

datatype move_error =
    SourceMissing
  | CreateDirFailed fs_error
  | TargetDirMissing
  | MoveIOFailed fs_error

definition basename :: "path \<Rightarrow> string" where
  "basename p = (if p = [] then [] else last p)"

text \<open>
  \<open>moveFile\<close> in three parts: the block that creates or checks the target directory, the
  choice of the target path, and the cross-device test with the move itself. The result
  is \<open>Inr path\<close> for \<open>{success: true, path}\<close> and \<open>Inl e\<close> for \<open>{success: false, error}\<close>.
\<close>

definition ensure_target_dir ::
  "move_options \<Rightarrow> 'c filesystem \<Rightarrow> path \<Rightarrow> move_error + 'c filesystem" where
  "ensure_target_dir opts fs targetDir =
     (if createDir opts then
        (case mkdir_p fs targetDir of
           Inl e \<Rightarrow> if e = EEXIST then Inr fs else Inl (CreateDirFailed e)
         | Inr fs1 \<Rightarrow> Inr fs1)
      else if fs_exists fs targetDir then Inr fs else Inl TargetDirMissing)"

definition choose_target :: "move_options \<Rightarrow> 'c filesystem \<Rightarrow> path \<Rightarrow> string \<Rightarrow> path" where
  "choose_target opts fs targetDir fileName =
     (if \<not> overwrite opts
      then find_free fs targetDir fileName 1 (targetDir @ [fileName])
      else targetDir @ [fileName])"

definition transfer ::
  "move_options \<Rightarrow> move_io \<Rightarrow> 'c filesystem \<Rightarrow> path \<Rightarrow> path \<Rightarrow>
   (move_error + path) \<times> 'c filesystem" where
  "transfer opts io fs sourcePath targetPath =
     (if \<not> fs_exists fs (butlast targetPath) then (Inl (MoveIOFailed ENOENT), fs)
      else if cross_device io then
        (if copy_fault io then (Inl (MoveIOFailed EIO), fs)
         else
           (case copy_file fs sourcePath targetPath of
              Inl e \<Rightarrow> (Inl (MoveIOFailed e), fs)
            | Inr fs2 \<Rightarrow>
                if delete_fault io then (Inl (MoveIOFailed EIO), fs2)
                else
                  (case (if useSafeDelete opts then trash fs2 sourcePath
                         else unlink fs2 sourcePath) of
                     Inl e \<Rightarrow> (Inl (MoveIOFailed e), fs2)
                   | Inr fs3 \<Rightarrow> (Inr targetPath, fs3))))
      else
        (if rename_fault io then (Inl (MoveIOFailed EIO), fs)
         else
           (case rename fs sourcePath targetPath of
              Inl e \<Rightarrow> (Inl (MoveIOFailed e), fs)
            | Inr fs2 \<Rightarrow> (Inr targetPath, fs2))))"

definition moveFile ::
  "path \<Rightarrow> path \<Rightarrow> move_options \<Rightarrow> move_io \<Rightarrow> 'c filesystem \<Rightarrow>
   (move_error + path) \<times> 'c filesystem" where
  "moveFile sourcePath targetDir opts io fs =
     (if \<not> fs_exists fs sourcePath then (Inl SourceMissing, fs)
      else
        (case ensure_target_dir opts fs targetDir of
           Inl err \<Rightarrow> (Inl err, fs)
         | Inr fs1 \<Rightarrow>
             transfer opts io fs1 sourcePath
               (choose_target opts fs1 targetDir (basename sourcePath))))"

section \<open>The per-item pipeline (Organizer.processVideo)\<close>

record video_file =
  file_path :: path
  file_name :: string

record video_info =
  info_code :: string
  info_file :: video_file

text \<open>The fields of the metadata record the pipeline reads.\<close>

record metadata =
  meta_code :: string
  coverUrl :: string

text \<open>
  The values thrown inside \<open>processVideo\<close>; the result reports \<open>error.message\<close>, which is
  represented by the error itself. \<open>Retry\<close> wraps what a retryable function throws.
\<close>

datatype js_error =
    ScraperError string
  | FsError fs_error
  | NfoError string
  | CoversError string
  | MoveVideoFailed move_error
  | Retry "js_error retry_error"

text \<open>\<open>{success: true, code, path}\<close> and \<open>{success: false, code, error}\<close>.\<close>

datatype pipeline_result =
    Success string path
  | Failure string js_error

datatype 'a promise = Resolved 'a | Rejected js_error | Pending

text \<open>
  What the collaborators and the environment do during one run. The description-file
  writer (\<open>nfo.generateNfo\<close>), the metadata provider and the image download are outside
  the modelled code: the environment says how each call ends and which files it leaves.
  \<open>nfo_attempts k\<close> is the outcome of the \<open>k\<close>-th call of the writer (\<open>NfoThrows e left\<close>
  throws \<open>e\<close>, leaving a file behind when \<open>left\<close>); \<open>move_attempts k\<close> is the environment of
  the \<open>k\<close>-th call of \<open>moveFile\<close> for the video; \<open>nfo_signal\<close> and \<open>move_signal\<close> say
  whether a termination signal arrives during a backoff delay of the two retryable steps;
  \<open>readdir_fault\<close> and \<open>rm_fault\<close> make the two file-system calls of the compensation fail.
\<close>

datatype nfo_outcome = NfoWritten | NfoThrows js_error bool

record 'c pipeline_env =
  env_now :: int
  scrape :: "js_error + metadata"
  cache_write_ok :: bool
  mkdir_fault :: bool
  nfo_attempts :: "nat \<Rightarrow> nfo_outcome"
  nfo_content :: 'c
  nfo_signal :: "int \<Rightarrow> bool"
  covers_error :: "js_error option"
  fanart_written :: bool
  poster_written :: bool
  cover_ext :: string
  cover_content :: 'c
  move_attempts :: "nat \<Rightarrow> move_io"
  move_signal :: "int \<Rightarrow> bool"
  readdir_fault :: bool
  back_io :: move_io
  rm_fault :: bool

text \<open>The state the pipeline acts on: the file tree, the metadata cache, the retry module.\<close>

record 'c pipeline_state =
  files :: "'c filesystem"
  metadata_cache :: "(string, metadata) cache"
  retry_state :: retry_module

text \<open>The options both retryable methods of the Organizer are created with.\<close>

definition organizer_retry_options :: retry_options where
  "organizer_retry_options = \<lparr>maxRetries = 3, baseDelay = 1000, maxDelay = 5000\<rparr>"

text \<open>
  The first step of the outer \<open>try\<close>: the cache lookup, and on a miss the provider and
  \<open>cache.set\<close>.
\<close>

definition resolve_metadata ::
  "'c pipeline_env \<Rightarrow> string \<Rightarrow> 'c pipeline_state \<Rightarrow> (js_error + metadata) \<times> 'c pipeline_state" where
  "resolve_metadata env videoCode st =
     (let key = ''metadata:'' @ videoCode;
          g = cache_get key None (env_now env) (metadata_cache st)
      in case fst g of
           Some md \<Rightarrow> (Inr md, st\<lparr>metadata_cache := snd g\<rparr>)
         | None \<Rightarrow>
             (case scrape env of
                Inl e \<Rightarrow> (Inl e, st\<lparr>metadata_cache := snd g\<rparr>)
              | Inr md \<Rightarrow>
                  (Inr md,
                   st\<lparr>metadata_cache :=
                        cache_set key md None (cache_write_ok env) (env_now env) (snd g)\<rparr>)))"

text \<open>
  \<open>_generateNfoFile\<close>, one call. The world of the retried operation is the file tree and
  the number of calls made so far.
\<close>

definition generateNfoFile_once ::
  "'c pipeline_env \<Rightarrow> metadata \<Rightarrow> path \<Rightarrow> 'c filesystem \<times> nat \<Rightarrow>
   (js_error + path) \<times> ('c filesystem \<times> nat)" where
  "generateNfoFile_once env md videoDir w =
     (let nfoPath = path_join videoDir (meta_code md @ ''.nfo'') in
      case nfo_attempts env (snd w) of
        NfoWritten \<Rightarrow>
          (case write_file (fst w) nfoPath (nfo_content env) of
             Inr fs1 \<Rightarrow> (Inr nfoPath, (fs1, Suc (snd w)))
           | Inl e \<Rightarrow> (Inl (FsError e), (fst w, Suc (snd w))))
      | NfoThrows e left \<Rightarrow>
          (Inl e,
           ((if left then
               (case write_file (fst w) nfoPath (nfo_content env) of
                  Inr fs1 \<Rightarrow> fs1
                | Inl x \<Rightarrow> fst w)
             else fst w),
            Suc (snd w))))"

text \<open>
  \<open>images.downloadAndSaveCovers\<close>: the two argument checks, then the download and the
  writing of \<open>fanart\<close> and \<open>poster\<close> (with the extension taken from the URL) as the
  environment has them end.
\<close>

definition write_if :: "bool \<Rightarrow> 'c filesystem \<Rightarrow> path \<Rightarrow> 'c \<Rightarrow> 'c filesystem" where
  "write_if b fs p c =
     (if b then (case write_file fs p c of Inr fs1 \<Rightarrow> fs1 | Inl e \<Rightarrow> fs) else fs)"

definition downloadAndSaveCovers ::
  "'c pipeline_env \<Rightarrow> string \<Rightarrow> path \<Rightarrow> 'c filesystem \<Rightarrow> (js_error + unit) \<times> 'c filesystem" where
  "downloadAndSaveCovers env url outputDir fs =
     (if take 4 url \<noteq> ''http'' then (Inl (CoversError ''url''), fs)
      else if \<not> fs_exists fs outputDir then (Inl (CoversError ''dir''), fs)
      else
        (let fanartPath = path_join outputDir (''fanart'' @ cover_ext env);
             posterPath = path_join outputDir (''poster'' @ cover_ext env)
         in case covers_error env of
              Some e \<Rightarrow>
                (Inl e,
                 write_if (poster_written env)
                   (write_if (fanart_written env) fs fanartPath (cover_content env))
                   posterPath (cover_content env))
            | None \<Rightarrow>
                (case write_file fs fanartPath (cover_content env) of
                   Inl x \<Rightarrow> (Inl (FsError x), fs)
                 | Inr fs1 \<Rightarrow>
                     (case write_file fs1 posterPath (cover_content env) of
                        Inl x \<Rightarrow> (Inl (FsError x), fs1)
                      | Inr fs2 \<Rightarrow> (Inr (), fs2)))))"

text \<open>\<open>_moveVideoFile\<close>, one call.\<close>

definition moveVideoFile_once ::
  "'c pipeline_env \<Rightarrow> path \<Rightarrow> path \<Rightarrow> 'c filesystem \<times> nat \<Rightarrow>
   (js_error + path) \<times> ('c filesystem \<times> nat)" where
  "moveVideoFile_once env sourceVideoPath videoDir w =
     (let r = moveFile sourceVideoPath videoDir
                \<lparr>useSafeDelete = True, overwrite = False, createDir = True, newName = None\<rparr>
                (move_attempts env (snd w)) (fst w)
      in case fst r of
           Inl e \<Rightarrow> (Inl (MoveVideoFailed e), (snd r, Suc (snd w)))
         | Inr p \<Rightarrow> (Inr p, (snd r, Suc (snd w))))"

text \<open>
  The inner \<open>try\<close> block: description file, covers, move. \<open>BodyPending\<close>: a retryable
  step never settles.
\<close>

datatype body_outcome = BodyReturned | BodyThrew js_error | BodyPending

definition pipeline_body ::
  "'c pipeline_env \<Rightarrow> metadata \<Rightarrow> path \<Rightarrow> path \<Rightarrow> 'c pipeline_state \<Rightarrow>
   body_outcome \<times> 'c pipeline_state" where
  "pipeline_body env md sourceVideoPath videoDir st =
     (let r1 = retryOperation organizer_retry_options (nfo_signal env)
                 (generateNfoFile_once env md videoDir) (retry_state st) (files st, 0);
          st1 = st\<lparr>files := fst (world (snd r1)), retry_state := module (snd r1)\<rparr>
      in case fst r1 of
           NeverSettled \<Rightarrow> (BodyPending, st1)
         | Threw e \<Rightarrow> (BodyThrew (Retry e), st1)
         | Returned nfoPath \<Rightarrow>
             (let r2 = downloadAndSaveCovers env (coverUrl md) videoDir (files st1);
                  st2 = st1\<lparr>files := snd r2\<rparr>
              in case fst r2 of
                   Inl e \<Rightarrow> (BodyThrew e, st2)
                 | Inr u \<Rightarrow>
                     (let r3 = retryOperation organizer_retry_options (move_signal env)
                                 (moveVideoFile_once env sourceVideoPath videoDir)
                                 (retry_state st2) (files st2, 0);
                          st3 = st2\<lparr>files := fst (world (snd r3)),
                                    retry_state := module (snd r3)\<rparr>
                      in case fst r3 of
                           NeverSettled \<Rightarrow> (BodyPending, st3)
                         | Threw e \<Rightarrow> (BodyThrew (Retry e), st3)
                         | Returned p \<Rightarrow> (BodyReturned, st3))))"

text \<open>
  The compensation in the inner \<open>catch\<close>: list the destination directory, move the first
  entry with a video extension to the directory of the source, remove the destination
  directory. \<open>videoTypes\<close> is \<open>config.get('fileTypes.video')\<close>. An error in
  \<open>readdir\<close> or \<open>rm\<close> is caught and logged; the result of \<open>moveFile\<close> is not looked at.
\<close>

definition compensate ::
  "string list \<Rightarrow> 'c pipeline_env \<Rightarrow> path \<Rightarrow> path \<Rightarrow> 'c filesystem \<Rightarrow> 'c filesystem" where
  "compensate videoTypes env sourceVideoPath videoDir fs =
     (if readdir_fault env then fs
      else
        (case readdir fs videoDir of
           Inl e \<Rightarrow> fs
         | Inr videoFiles \<Rightarrow>
             (let fs1 =
                (case List.find (\<lambda>f. toLowerCase (extname f) \<in> set videoTypes) videoFiles of
                   None \<Rightarrow> fs
                 | Some videoFile \<Rightarrow>
                     snd (moveFile (videoDir @ [videoFile]) (butlast sourceVideoPath)
                            \<lparr>useSafeDelete = False, overwrite = False, createDir = True,
                             newName = Some (basename sourceVideoPath)\<rparr>
                            (back_io env) fs))
              in if rm_fault env then fs1 else rm_rf fs1 videoDir)))"

text \<open>
  \<open>processVideo(videoInfo, config, targetDir)\<close>. \<open>videoTypes\<close> stands for the
  configuration object, of which only \<open>fileTypes.video\<close> is read here. The destination
  directory is \<open>path.join(targetDir, metadata.code)\<close> for whatever string the code is.
\<close>

definition processVideo ::
  "video_info \<Rightarrow> string list \<Rightarrow> path \<Rightarrow> 'c pipeline_env \<Rightarrow> 'c pipeline_state \<Rightarrow>
   pipeline_result promise \<times> 'c pipeline_state" where
  "processVideo videoInfo videoTypes targetDir env st =
     (let videoCode = info_code videoInfo;
          sourceVideoPath = file_path (info_file videoInfo);
          m = resolve_metadata env videoCode st
      in case fst m of
           Inl e \<Rightarrow> (Resolved (Failure (info_code videoInfo) e), snd m)
         | Inr md \<Rightarrow>
             (let videoDir = path_join targetDir (meta_code md) in
              case (if mkdir_fault env then Inl EIO else mkdir_p (files (snd m)) videoDir) of
                Inl e \<Rightarrow> (Resolved (Failure (info_code videoInfo) (FsError e)), snd m)
              | Inr fs1 \<Rightarrow>
                  (let b = pipeline_body env md sourceVideoPath videoDir
                             ((snd m)\<lparr>files := fs1\<rparr>)
                   in case fst b of
                        BodyReturned \<Rightarrow> (Resolved (Success (meta_code md) videoDir), snd b)
                      | BodyThrew e \<Rightarrow>
                          (Resolved (Failure (info_code videoInfo) e),
                           (snd b)\<lparr>files :=
                              compensate videoTypes env sourceVideoPath videoDir
                                (files (snd b))\<rparr>)
                      | BodyPending \<Rightarrow> (Pending, snd b))))"



text \<open>
  The source file is where it was, with its content, and the destination directory is a
  directory.
\<close>

definition source_intact :: "path \<Rightarrow> 'c \<Rightarrow> path \<Rightarrow> 'c filesystem \<Rightarrow> bool" where
  "source_intact src c videoDir fs = (lookup fs src = Some (File c) \<and> is_dir fs videoDir)"

text \<open>
  Examples. An environment in which every step succeeds on a single device; a tree with
  a video in \<open>src\<close> and an empty \<open>out\<close>; a tree left by an earlier run, where the
  output directory is scanned again and the video lies in its destination directory; a
  tree in which the destination directory of the new video holds the result of an earlier
  run for another file of the same code; and a provider that returns an empty code (the
  detail page has no code block) for a video lying in the output directory.
\<close>

definition same_device :: move_io where
  "same_device =
     \<lparr>cross_device = False, rename_fault = False, copy_fault = False, delete_fault = False\<rparr>"

definition example_env :: "nat pipeline_env" where
  "example_env =
     \<lparr>env_now = 0,
      scrape = Inr \<lparr>meta_code = ''ABC-123'', coverUrl = ''http://x/c.jpg''\<rparr>,
      cache_write_ok = True, mkdir_fault = False,
      nfo_attempts = (\<lambda>k. NfoWritten), nfo_content = 7, nfo_signal = (\<lambda>k. False),
      covers_error = None, fanart_written = True, poster_written = True,
      cover_ext = ''.jpg'', cover_content = 8,
      move_attempts = (\<lambda>k. same_device), move_signal = (\<lambda>k. False),
      readdir_fault = False, back_io = same_device, rm_fault = False\<rparr>"

definition covers_fail_env :: "nat pipeline_env" where
  "covers_fail_env = example_env\<lparr>covers_error := Some (CoversError ''network'')\<rparr>"

definition example_state :: "nat pipeline_state" where
  "example_state =
     \<lparr>files = [([''src''], Dir), ([''src'', ''abc-123.mp4''], File 1), ([''out''], Dir)],
      metadata_cache = new_Cache 1000 86400000, retry_state = fresh_module\<rparr>"

definition example_video :: video_info where
  "example_video =
     \<lparr>info_code = ''ABC-123'',
      info_file = \<lparr>file_path = [''src'', ''abc-123.mp4''], file_name = ''abc-123.mp4''\<rparr>\<rparr>"

definition rescanned_state :: "nat pipeline_state" where
  "rescanned_state =
     \<lparr>files = [([''out''], Dir), ([''out'', ''ABC-123''], Dir),
               ([''out'', ''ABC-123'', ''ABC-123.nfo''], File 3),
               ([''out'', ''ABC-123'', ''abc-123.mp4''], File 1),
               ([''out'', ''ABC-123'', ''fanart.jpg''], File 4),
               ([''out'', ''ABC-123'', ''poster.jpg''], File 4)],
      metadata_cache = new_Cache 1000 86400000, retry_state = fresh_module\<rparr>"

definition rescanned_video :: video_info where
  "rescanned_video =
     \<lparr>info_code = ''ABC-123'',
      info_file = \<lparr>file_path = [''out'', ''ABC-123'', ''abc-123.mp4''],
                   file_name = ''abc-123.mp4''\<rparr>\<rparr>"

definition earlier_state :: "nat pipeline_state" where
  "earlier_state =
     \<lparr>files = [([''src''], Dir), ([''src'', ''abc-123.mp4''], File 1), ([''out''], Dir),
               ([''out'', ''ABC-123''], Dir),
               ([''out'', ''ABC-123'', ''ABC-123.nfo''], File 3),
               ([''out'', ''ABC-123'', ''abc-123-cd1.mp4''], File 2)],
      metadata_cache = new_Cache 1000 86400000, retry_state = fresh_module\<rparr>"

definition empty_code_env :: "nat pipeline_env" where
  "empty_code_env =
     covers_fail_env\<lparr>scrape := Inr \<lparr>meta_code = [], coverUrl = ''http://x/c.jpg''\<rparr>\<rparr>"

definition flat_state :: "nat pipeline_state" where
  "flat_state =
     \<lparr>files = [([''out''], Dir), ([''out'', ''abc-123.mp4''], File 1),
               ([''out'', ''XYZ-9''], Dir), ([''out'', ''XYZ-9'', ''xyz-9.mp4''], File 5)],
      metadata_cache = new_Cache 1000 86400000, retry_state = fresh_module\<rparr>"

definition flat_video :: video_info where
  "flat_video =
     \<lparr>info_code = ''ABC-123'',
      info_file = \<lparr>file_path = [''out'', ''abc-123.mp4''], file_name = ''abc-123.mp4''\<rparr>\<rparr>"

section \<open>Identifier extraction: the fallback\<close>



lemma nameWithoutExt_no_dot: "CHR ''.'' \<notin> set f \<Longrightarrow> nameWithoutExt f = f"
  by (induction f) (auto simp: ext_matches_here_def)




section \<open>Retry: exhaustion and interruption\<close>


lemma world_after_Suc: "world_after operation (Suc n) w = world_after operation n (snd (operation w))"
  by (simp only: world_after_def funpow_Suc_right o_apply)

lemma retry_loop_done:
  "\<not> attempt < maxRetries opts \<Longrightarrow>
   retry_loop opts sig operation attempt (Some e) v = (Threw (Exhausted e (maxRetries opts)), v)"
  by (simp add: retry_loop.simps)

lemma retry_loop_fail_step:
  assumes "attempt < maxRetries opts" "\<not> isAborting (module v)" "\<not> exited (module v)"
    "\<not> sig attempt" "fst (operation (world v)) = Inl e"
  shows "\<exists>v'. retry_loop opts sig operation attempt lastError v =
            retry_loop opts sig operation (attempt + 1) (Some e) v' \<and>
          world v' = snd (operation (world v)) \<and> calls v' = Suc (calls v) \<and>
          \<not> isAborting (module v') \<and> \<not> exited (module v')"
  using assms
  by (subst retry_loop.simps)
     (auto simp: Let_def start_delay_def await_delay_def timer_fires_def)

lemma retry_loop_exhaust:
  assumes "always_fails operation" "\<forall>k. \<not> sig k"
  shows "n = nat (maxRetries opts - attempt) \<Longrightarrow> attempt < maxRetries opts \<Longrightarrow>
    \<not> isAborting (module v) \<Longrightarrow> \<not> exited (module v) \<Longrightarrow>
    fst (retry_loop opts sig operation attempt lastError v) =
      Threw (Exhausted (projl (fst (operation (world_after operation (n - 1) (world v)))))
               (maxRetries opts)) \<and>
    calls (snd (retry_loop opts sig operation attempt lastError v)) = calls v + n \<and>
    world (snd (retry_loop opts sig operation attempt lastError v)) =
      world_after operation n (world v)"
proof (induction n arbitrary: attempt lastError v)
  case 0
  then show ?case by simp
next
  case (Suc n)
  from assms(1) obtain e where e: "fst (operation (world v)) = Inl e"
    by (auto simp: always_fails_def isl_def)
  from retry_loop_fail_step [of attempt opts v sig operation e lastError] Suc.prems e
    assms(2)
  obtain v' where v': "retry_loop opts sig operation attempt lastError v =
            retry_loop opts sig operation (attempt + 1) (Some e) v'"
      "world v' = snd (operation (world v))" "calls v' = Suc (calls v)"
      "\<not> isAborting (module v')" "\<not> exited (module v')"
    by blast
  show ?case
  proof (cases "attempt + 1 < maxRetries opts")
    case True
    have n: "n = nat (maxRetries opts - (attempt + 1))" using Suc.prems(1) by simp
    from True n have "0 < n" by simp
    then obtain k where k: "n = Suc k" by (cases n) auto
    from Suc.IH [OF n True v'(4) v'(5), of "Some e"] show ?thesis
      by (simp add: v' k world_after_Suc)
  next
    case False
    with Suc.prems have n0: "n = 0" by simp
    show ?thesis
      by (simp add: v' retry_loop_done [OF False] n0 e world_after_def)
  qed
qed

text \<open>
  C4. With valid options, no abort (the flag is clear, the process is alive and no signal
  arrives during a delay) and an operation that throws on every invocation,
  \<open>retryOperation\<close> invokes the operation exactly \<open>maxRetries\<close> times and then throws the
  enhanced error, whose \<open>originalError\<close> is the error thrown by the last invocation and
  whose \<open>attempts\<close> is \<open>maxRetries\<close>.
\<close>

theorem retry_exhaustion:
  assumes "valid_retry_options opts" and "always_fails operation"
    and "\<not> isAborting m" and "\<not> exited m" and "\<forall>k. \<not> sig k"
  shows "fst (retryOperation opts sig operation m w) =
           Threw (Exhausted
             (projl (fst (operation (world_after operation (nat (maxRetries opts) - 1) w))))
             (maxRetries opts)) \<and>
         calls (snd (retryOperation opts sig operation m w)) = nat (maxRetries opts) \<and>
         world (snd (retryOperation opts sig operation m w)) =
           world_after operation (nat (maxRetries opts)) w"
proof -
  let ?v0 = "\<lparr>world = w, module = m, calls = 0, delays = [], localCleanupFunctions = []\<rparr>"
  have pos: "0 < maxRetries opts" using assms(1) by (simp add: valid_retry_options_def)
  have L: "fst (retry_loop opts sig operation 0 None ?v0) =
      Threw (Exhausted (projl (fst (operation (world_after operation (nat (maxRetries opts) - 1) w))))
               (maxRetries opts)) \<and>
    calls (snd (retry_loop opts sig operation 0 None ?v0)) = nat (maxRetries opts) \<and>
    world (snd (retry_loop opts sig operation 0 None ?v0)) =
      world_after operation (nat (maxRetries opts)) w"
    using retry_loop_exhaust [OF assms(2) assms(5), of "nat (maxRetries opts)" opts 0 ?v0 None]
      pos assms(3,4) by simp
  show ?thesis
    using assms(1) L
    by (simp add: retryOperation_def valid_retry_options_def Let_def retry_finally_def)
qed

lemma world_after_failing_op: "world_after failing_op 2 0 = 2" "world_after failing_op 3 0 = 3"
  by (simp_all add: world_after_def failing_op_def numeral_2_eq_2 numeral_3_eq_3)

theorem retry_exhaustion_witness:
  "valid_retry_options default_retry_options \<and> always_fails failing_op \<and>
   \<not> isAborting fresh_module \<and> \<not> exited fresh_module \<and>
   fst (retryOperation default_retry_options (\<lambda>k. False) failing_op fresh_module 0)
     = Threw (Exhausted ''e2'' 3) \<and>
   calls (snd (retryOperation default_retry_options (\<lambda>k. False) failing_op fresh_module 0)) = 3"
proof -
  have v: "valid_retry_options default_retry_options"
    by (simp add: valid_retry_options_def default_retry_options_def)
  have a: "always_fails failing_op" by (simp add: always_fails_def failing_op_def)
  have m: "\<not> isAborting fresh_module" "\<not> exited fresh_module" by (simp_all add: fresh_module_def)
  have s: "\<forall>k. \<not> (\<lambda>k::int. False) k" by simp
  have mr: "nat (maxRetries default_retry_options) = 3" "maxRetries default_retry_options = 3"
     by (simp_all add: default_retry_options_def)
  have e: "projl (fst (failing_op 2)) = ''e2''" by (simp add: failing_op_def)
  from retry_exhaustion [OF v a m s, of 0] show ?thesis
    using v a m by (simp add: mr world_after_failing_op e)
qed


lemma await_delay_signalled:
  "\<not> isAborting m \<Longrightarrow> fst (await_delay True (start_delay m)) = DelayNeverSettles"
  by (simp add: await_delay_def start_delay_def globalAbortHandler_def timer_fires_def)

text \<open>
  C5 on the code. The operation fails at attempt 0 and the signal arrives during the first
  backoff delay. The hook run by \<open>globalAbortHandler\<close> only clears the timer, so the delay
  promise is neither resolved nor rejected: \<open>retryOperation\<close> makes no further attempt,
  but it does not throw the interruption error either; it never settles.
\<close>

theorem retry_signal_during_delay:
  "fst (retryOperation default_retry_options (\<lambda>k. k = 0) failing_op fresh_module 0)
     = NeverSettled \<and>
   fst (retryOperation default_retry_options (\<lambda>k. k = 0) failing_op fresh_module 0)
     \<noteq> Threw Interrupted \<and>
   calls (snd (retryOperation default_retry_options (\<lambda>k. k = 0) failing_op fresh_module 0))
     = 1 \<and>
   armed (module (snd (retryOperation default_retry_options (\<lambda>k. k = 0) failing_op
     fresh_module 0))) = []"
  by (simp add: retryOperation_def default_retry_options_def fresh_module_def failing_op_def
      retry_loop.simps start_delay_def await_delay_def globalAbortHandler_def timer_fires_def
      backoff_delay_def)

section \<open>The task queue: bounded concurrency\<close>

lemma settle_fields [simp]:
  "concurrency (settle i out s) = concurrency s"
  "running (settle i out s) = running s"
  "queue (settle i out s) = queue s"
  "isStopped (settle i out s) = isStopped s"
  "next_id (settle i out s) = next_id s"
  "active (settle i out s) = active s"
  "started (settle i out s) = started s"
  "immediates (settle i out s) = immediates s"
  "timeouts (settle i out s) = timeouts s"
  "maxStoredResults (settle i out s) = maxStoredResults s"
  "completedCount (settle i out s) = completedCount s"
  "results (settle i out s) = results s"
  "errors (settle i out s) = errors s"
  by (simp_all add: settle_def)

lemma fold_settle_fields [simp]:
  "concurrency (fold (\<lambda>q. settle (f q) out) qs s) = concurrency s"
  "running (fold (\<lambda>q. settle (f q) out) qs s) = running s"
  "queue (fold (\<lambda>q. settle (f q) out) qs s) = queue s"
  "isStopped (fold (\<lambda>q. settle (f q) out) qs s) = isStopped s"
  "next_id (fold (\<lambda>q. settle (f q) out) qs s) = next_id s"
  "active (fold (\<lambda>q. settle (f q) out) qs s) = active s"
  "started (fold (\<lambda>q. settle (f q) out) qs s) = started s"
  "immediates (fold (\<lambda>q. settle (f q) out) qs s) = immediates s"
  "timeouts (fold (\<lambda>q. settle (f q) out) qs s) = timeouts s"
  "completedCount (fold (\<lambda>q. settle (f q) out) qs s) = completedCount s"
  by (induction qs arbitrary: s; simp)+

lemma process_bounded: "bounded s \<Longrightarrow> bounded (process s)"
  by (auto simp: bounded_def process_def Let_def)

lemma process_concurrency [simp]: "concurrency (process s) = concurrency s"
  by (simp add: process_def Let_def)

lemma bounded_upd [simp]:
  "bounded (s\<lparr>immediates := n\<rparr>) = bounded s"
  "bounded (s\<lparr>queue := q\<rparr>) = bounded s"
  "bounded (s\<lparr>next_id := k\<rparr>) = bounded s"
  "bounded (s\<lparr>timeouts := ts\<rparr>) = bounded s"
  "bounded (s\<lparr>results := rs\<rparr>) = bounded s"
  "bounded (s\<lparr>errors := es\<rparr>) = bounded s"
  "bounded (s\<lparr>isStopped := b\<rparr>) = bounded s"
  "bounded (s\<lparr>completedCount := k\<rparr>) = bounded s"
  "bounded (settle i out s) = bounded s"
  "bounded (fold (\<lambda>q. settle (f q) out) qs s) = bounded s"
  by (simp_all add: bounded_def)

lemma length_remove1_mem: "i \<in> set xs \<Longrightarrow> int (length (remove1 i xs)) = int (length xs) - 1"
  by (induction xs) auto

lemma queue_step_bounded:
  assumes "bounded s" "\<not> is_SetConcurrency ev"
  shows "bounded (queue_step s ev) \<and> concurrency (queue_step s ev) = concurrency s"
proof (cases ev)
  case (Add t prio timeout now)
  then show ?thesis using assms(1)
    by (auto simp: add_def Let_def intro!: process_bounded)
next
  case Immediate
  then show ?thesis using assms(1) by (auto intro!: process_bounded)
next
  case (Finish i out)
  then show ?thesis using assms(1)
    by (cases out) (auto simp: finish_def Let_def bounded_def length_remove1_mem)
next
  case (TimeoutFires i)
  then show ?thesis using assms(1) by (auto simp: timeout_fires_def Let_def)
next
  case (Cancel p)
  then show ?thesis using assms(1) by (auto simp: cancel_def Let_def)
next
  case Stop
  then show ?thesis using assms(1) by (auto simp: stop_def)
next
  case Resume
  then show ?thesis using assms(1) by (auto simp: resume_def)
next
  case Clear
  then show ?thesis using assms(1) by (auto simp: clear_def)
next
  case (SetConcurrency c)
  then show ?thesis using assms(2) by simp
qed

lemma queue_run_bounded:
  "bounded s \<Longrightarrow> list_all (\<lambda>ev. \<not> is_SetConcurrency ev) evs \<Longrightarrow>
   bounded (queue_run s evs) \<and> concurrency (queue_run s evs) = concurrency s"
proof (induction evs arbitrary: s)
  case Nil
  then show ?case by (simp add: queue_run_def)
next
  case (Cons ev evs)
  from Cons.prems have b: "bounded (queue_step s ev)" "concurrency (queue_step s ev) = concurrency s"
    using queue_step_bounded [of s ev] by auto
  from Cons.IH [OF b(1)] Cons.prems(2) b(2) show ?case
    by (simp add: queue_run_def)
qed

text \<open>
  C3. Start from a new queue with a non-negative limit \<open>c\<close> and let anything happen to it
  except a call of \<open>setConcurrency\<close> (the limit is fixed): submissions, scheduled
  dispatches, completions, timeouts, cancellations, stop, resume, clear. In every state
  reached, the counter \<open>running\<close> and the number of tasks in flight are at most \<open>c\<close>.
  The exported queue is \<open>new_TaskQueue 32\<close>.
\<close>

theorem bounded_concurrency:
  assumes "0 \<le> c" and "list_all (\<lambda>ev. \<not> is_SetConcurrency ev) evs"
  shows "running (queue_run (new_TaskQueue c) evs) \<le> c \<and>
         int (length (active (queue_run (new_TaskQueue c) evs))) \<le> c \<and>
         concurrency (queue_run (new_TaskQueue c) evs) = c"
proof -
  have "bounded (new_TaskQueue c)" using assms(1) by (simp add: bounded_def new_TaskQueue_def)
  from queue_run_bounded [OF this assms(2)] show ?thesis
    by (simp add: bounded_def new_TaskQueue_def)
qed

lemmas queue_eval =
  queue_run_def new_TaskQueue_def add_def process_def finish_def settle_def is_settled_def
  sort_queue_def trim_def Let_def

theorem bounded_concurrency_witness:
  "(0::int) \<le> 1 \<and>
   list_all (\<lambda>ev. \<not> is_SetConcurrency ev)
     [Add ''a'' 0 0 10, Add ''b'' 0 0 10, Immediate, Finish 0 (Inr (7::nat)), Immediate
      :: (string, string, nat) queue_event] \<and>
   active (queue_run (new_TaskQueue 1)
     [Add ''a'' 0 0 10, Add ''b'' 0 0 10, Immediate, Finish 0 (Inr (7::nat)), Immediate
      :: (string, string, nat) queue_event]) = [1] \<and>
   running (queue_run (new_TaskQueue 1)
     [Add ''a'' 0 0 10, Add ''b'' 0 0 10, Immediate, Finish 0 (Inr (7::nat)), Immediate
      :: (string, string, nat) queue_event]) \<le> 1"
  using bounded_concurrency [of 1
     "[Add ''a'' 0 0 10, Add ''b'' 0 0 10, Immediate, Finish 0 (Inr (7::nat)), Immediate
      :: (string, string, nat) queue_event]"]
  by (simp add: queue_eval)

section \<open>The task queue: processAll\<close>



lemma process_settled [simp]: "settled (process s) = settled s"
  by (simp add: process_def Let_def)






lemma set_insert_sorted [simp]: "set (insert_sorted x ys) = insert x (set ys)"
  by (induction ys) auto

lemma set_foldl_insert_sorted:
  "set (foldl (\<lambda>acc x. insert_sorted x acc) acc xs) = set acc \<union> set xs"
  by (induction xs arbitrary: acc) auto

lemma set_sort_queue [simp]: "set (sort_queue xs) = set xs"
  by (simp add: sort_queue_def set_foldl_insert_sorted)



lemma next_id_process [simp]: "next_id (process s) = next_id s"
  by (simp add: process_def Let_def)

lemma next_id_add [simp]: "next_id (snd (add t prio timeout now s)) = Suc (next_id s)"
  by (simp add: add_def Let_def)

lemma fst_add [simp]: "fst (add t prio timeout now s) = next_id s"
  by (simp add: add_def Let_def)









section \<open>The task queue: a task in flight settles its own promise\<close>




lemma is_settled_cong: "settled s' = settled s \<Longrightarrow> is_settled s' j = is_settled s j"
  by (simp add: is_settled_def)

lemma is_settled_fields [simp]:
  "is_settled (s\<lparr>queue := q\<rparr>) = is_settled s"
  "is_settled (s\<lparr>next_id := n\<rparr>) = is_settled s"
  "is_settled (s\<lparr>timeouts := ts\<rparr>) = is_settled s"
  "is_settled (s\<lparr>isStopped := b\<rparr>) = is_settled s"
  "is_settled (s\<lparr>immediates := k\<rparr>) = is_settled s"
  "is_settled (s\<lparr>running := c\<rparr>) = is_settled s"
  "is_settled (s\<lparr>started := st\<rparr>) = is_settled s"
  "is_settled (s\<lparr>active := a\<rparr>) = is_settled s"
  "is_settled (s\<lparr>results := rs\<rparr>) = is_settled s"
  "is_settled (s\<lparr>errors := es\<rparr>) = is_settled s"
  "is_settled (s\<lparr>completedCount := k\<rparr>) = is_settled s"
  "is_settled (s\<lparr>concurrency := c\<rparr>) = is_settled s"
  by (simp_all add: is_settled_def fun_eq_iff)

























section \<open>The cache: bounded memory tier and LRU eviction\<close>
















lemma lru_fields [simp]:
  "lru_consistent (c\<lparr>disk := dk\<rparr>) log = lru_consistent c log"
  "mem_size (c\<lparr>disk := dk\<rparr>) = mem_size c"
  by (simp_all add: lru_consistent_def mem_keys_def mem_size_def)









lemmas cache_eval =
  new_Cache_def cache_set_def cache_get_def get_memory_def get_file_def setMemoryCache_def
  updateAccessOrder_def removeFromAccessOrder_def isExpired_def js_or_def truthy_def
  mem_has_def mem_size_def mem_keys_def cleanup_def cleanup_deletes_def Let_def
  lru_example_def stale_example_def override_example_def



text \<open>
  C7 on the code. The cache is bounded at 1 with default max-age 100. \<open>k1\<close> is set at
  time 0, evicted from memory by the \<open>set\<close> of \<open>k2\<close>, and read at time 90: the file
  entry is promoted by \<open>setMemoryCache\<close>, which stamps it with the time of the read. At
  time 150 the entry is 150 old, beyond its max-age, and \<open>get\<close> still returns it from the
  memory tier.
\<close>

theorem stale_entry_returned:
  "fst (cache_get ''k1'' None 150 stale_example) = Some 1 \<and>
   map_of (disk stale_example) ''k1'' =
     Some \<lparr>content = Some \<lparr>file_data = 1, file_maxAge = None, file_timestamp = 0\<rparr>,
           mtimeMs = 0\<rparr> \<and>
   maxFileAge stale_example = 100 \<and>
   isExpired stale_example 150 0 None"
  by (simp add: cache_eval)

text \<open>
  C8 on the code. The default max-age is 100 and the entry was set at time 0 with its
  own max-age 200. At time 150 the entry is not expired and \<open>get\<close> serves it from the
  file tier, but \<open>cleanup\<close> deletes the file: its first test compares the file's age with
  the default only.
\<close>

theorem cleanup_ignores_override:
  "map_of (disk override_example) ''k'' =
     Some \<lparr>content = Some \<lparr>file_data = 1, file_maxAge = Some 200, file_timestamp = 0\<rparr>,
           mtimeMs = 0\<rparr> \<and>
   \<not> isExpired override_example 150 0 (Some 200) \<and>
   fst (get_file ''k'' None 150 override_example) = Some 1 \<and>
   map_of (disk (cleanup 150 override_example)) ''k'' = None"
  by (simp add: cache_eval)

text \<open>
  What does hold for expiry: a \<open>get\<close> that directly follows a successful \<open>set\<close> of the
  same key returns the value exactly while the age does not exceed the effective max-age.
\<close>

lemma get_after_set:
  "fst (cache_get k optMaxAge t (cache_set k d maxAge True t0 c)) =
     (if t - t0 > (if truthy (js_or maxAge optMaxAge) then the (js_or maxAge optMaxAge)
                   else maxFileAge c)
      then None else Some d)"
  by (auto simp: cache_set_def cache_get_def get_memory_def get_file_def setMemoryCache_def
      updateAccessOrder_def removeFromAccessOrder_def isExpired_def Let_def update_conv'
      split: list.splits)

section \<open>The pipeline: rollback\<close>

lemma lookup_append_new:
  "lookup fs p = Some n \<Longrightarrow> lookup (fs @ [(q, Dir)]) p = Some n"
  by (auto simp: lookup_def split: if_splits)

lemma mkdirs_keeps:
  "mkdirs fs ps = Inr fs1 \<Longrightarrow> lookup fs p = Some n \<Longrightarrow> lookup fs1 p = Some n"
proof (induction ps arbitrary: fs)
  case Nil
  then show ?case by simp
next
  case (Cons q ps)
  show ?case
  proof (cases "lookup fs q")
    case None
    with Cons.prems(1) have "mkdirs (fs @ [(q, Dir)]) ps = Inr fs1" by simp
    from Cons.IH [OF this lookup_append_new [OF Cons.prems(2)]] show ?thesis .
  next
    case (Some m)
    with Cons.prems(1) have "mkdirs fs ps = Inr fs1" by (cases m) auto
    from Cons.IH [OF this Cons.prems(2)] show ?thesis .
  qed
qed

lemma mkdirs_makes_dirs:
  "mkdirs fs ps = Inr fs1 \<Longrightarrow> q \<in> set ps \<Longrightarrow> is_dir fs1 q"
proof (induction ps arbitrary: fs)
  case Nil
  then show ?case by simp
next
  case (Cons a ps)
  show ?case
  proof (cases "lookup fs a")
    case None
    with Cons.prems(1) have m: "mkdirs (fs @ [(a, Dir)]) ps = Inr fs1" by simp
    from None have "a \<noteq> []" by (auto simp: lookup_def split: if_splits)
    with None have "lookup (fs @ [(a, Dir)]) a = Some Dir"
      by (simp add: lookup_def map_add_def)
    from mkdirs_keeps [OF m this] Cons.IH [OF m] Cons.prems(2) show ?thesis
      by (auto simp: is_dir_def)
  next
    case (Some m)
    with Cons.prems(1) have d: "m = Dir" and r: "mkdirs fs ps = Inr fs1" by (cases m; simp)+
    from mkdirs_keeps [OF r] Some d Cons.IH [OF r] Cons.prems(2) show ?thesis
      by (auto simp: is_dir_def)
  qed
qed

lemma mkdir_p_keeps:
  "mkdir_p fs d = Inr fs1 \<Longrightarrow> lookup fs p = Some n \<Longrightarrow> lookup fs1 p = Some n"
  unfolding mkdir_p_def by (rule mkdirs_keeps)

lemma mkdir_p_is_dir: "mkdir_p fs d = Inr fs1 \<Longrightarrow> is_dir fs1 d"
proof (cases d)
  case Nil
  then show ?thesis by (simp add: is_dir_def lookup_def)
next
  case (Cons x xs)
  assume m: "mkdir_p fs d = Inr fs1"
  have "d \<in> set (tl (prefixes d))" using Cons by (simp add: in_set_prefixes)
  with m show ?thesis unfolding mkdir_p_def by (rule mkdirs_makes_dirs)
qed

lemma lookup_update_other:
  "q \<noteq> p \<Longrightarrow> lookup (AList.update q v fs) p = lookup fs p"
  by (simp add: lookup_def update_conv')

lemma lookup_delete_other:
  "q \<noteq> p \<Longrightarrow> lookup (AList.delete q fs) p = lookup fs p"
  by (simp add: lookup_def delete_conv')

lemma write_file_keeps:
  "write_file fs q x = Inr fs1 \<Longrightarrow> q \<noteq> p \<Longrightarrow> lookup fs1 p = lookup fs p"
  by (auto simp: write_file_def lookup_update_other split: if_splits)

lemma map_of_filter_fst:
  "map_of (filter (\<lambda>e. P (fst e)) es) p = (if P p then map_of es p else None)"
  by (induction es) auto

lemma lookup_rm_rf:
  "p \<noteq> [] \<Longrightarrow> lookup (rm_rf fs d) p = (if inside d p then None else lookup fs p)"
  using map_of_filter_fst [of "\<lambda>k. \<not> inside d k" fs p]
  by (simp add: lookup_def rm_rf_def)

lemma inside_iff_prefix: "inside d p \<longleftrightarrow> prefix d p"
proof
  assume "inside d p"
  then have "p = d @ drop (length d) p"
    unfolding inside_def by (metis append_take_drop_id)
  then show "prefix d p" by (rule prefixI)
next
  assume "prefix d p"
  then obtain zs where "p = d @ zs" by (auto simp: prefix_def)
  then show "inside d p" by (simp add: inside_def)
qed

lemma inside_trans: "inside a b \<Longrightarrow> inside b c \<Longrightarrow> inside a c"
  by (auto simp: inside_iff_prefix)

lemma inside_append [simp]: "inside d (d @ xs)"
  by (simp add: inside_def)

lemma inside_same_length: "inside a b \<Longrightarrow> length a = length b \<Longrightarrow> a = b"
  by (simp add: inside_def)

lemma find_free_free: "\<not> fs_exists fs (find_free fs dir fileName counter targetPath)"
  by (induction fs dir fileName counter targetPath rule: find_free.induct)
     (subst find_free.simps, simp)

lemma find_free_in_dir:
  "butlast targetPath = dir \<Longrightarrow> targetPath \<noteq> [] \<Longrightarrow>
   butlast (find_free fs dir fileName counter targetPath) = dir \<and>
   find_free fs dir fileName counter targetPath \<noteq> []"
  by (induction fs dir fileName counter targetPath rule: find_free.induct)
     (subst (1 2) find_free.simps, simp add: numbered_def)

lemma map_of_reprefix:
  "\<not> inside X p \<Longrightarrow> \<not> inside T p \<Longrightarrow> map_of (map (reprefix X T) es) p = map_of es p"
proof (induction es)
  case Nil
  then show ?case by simp
next
  case (Cons e es)
  obtain k v where e: "e = (k, v)" by (cases e)
  show ?case
  proof (cases "inside X k")
    case True
    with Cons.prems(1) have "k \<noteq> p" by auto
    moreover have "T @ drop (length X) k \<noteq> p" using Cons.prems(2) by auto
    ultimately show ?thesis using True Cons by (simp add: e reprefix_def)
  next
    case False
    then show ?thesis using Cons by (simp add: e reprefix_def)
  qed
qed

lemma rename_keeps:
  assumes "rename fs X T = Inr fs1" "\<not> inside X p" "\<not> inside T p"
  shows "lookup fs1 p = lookup fs p"
proof -
  from assms(3) have "T \<noteq> p" by (auto simp: inside_def)
  then have "map_of (AList.delete T fs) p = map_of fs p" by (simp add: delete_conv')
  with map_of_reprefix [OF assms(2,3), of "AList.delete T fs"] assms(1) show ?thesis
    by (auto simp: rename_def lookup_def split: if_splits)
qed

lemma copy_file_keeps:
  "copy_file fs X T = Inr fs1 \<Longrightarrow> T \<noteq> p \<Longrightarrow> lookup fs1 p = lookup fs p"
  by (auto simp: copy_file_def lookup_update_other split: option.splits node.splits if_splits)

lemma unlink_keeps:
  "unlink fs X = Inr fs1 \<Longrightarrow> X \<noteq> p \<Longrightarrow> lookup fs1 p = lookup fs p"
  by (auto simp: unlink_def lookup_delete_other split: option.splits node.splits)

lemma lookup_root [simp]: "lookup fs [] = Some Dir"
  by (simp add: lookup_def)

lemma trash_keeps:
  assumes "trash fs X = Inr fs1" "\<not> inside X p"
  shows "lookup fs1 p = lookup fs p"
proof (cases "p = []")
  case True
  then show ?thesis by simp
next
  case False
  from assms(1) have "fs1 = rm_rf fs X" by (simp add: trash_def split: if_splits)
  with assms(2) False show ?thesis by (simp add: lookup_rm_rf)
qed

lemma ensure_target_dir_keeps:
  assumes "ensure_target_dir opts fs dir = Inr fs1" "lookup fs p = Some n"
  shows "lookup fs1 p = Some n"
proof (cases "createDir opts")
  case False
  with assms show ?thesis by (simp add: ensure_target_dir_def split: if_splits)
next
  case True
  show ?thesis
  proof (cases "mkdir_p fs dir")
    case (Inl e)
    with True assms show ?thesis by (simp add: ensure_target_dir_def split: if_splits)
  next
    case (Inr fs2)
    with True assms(1) have "fs1 = fs2" by (simp add: ensure_target_dir_def)
    with mkdir_p_keeps [OF Inr assms(2)] show ?thesis by simp
  qed
qed

lemma choose_target_fresh:
  assumes "\<not> overwrite opts"
  shows "\<not> fs_exists fs (choose_target opts fs dir nm)"
    and "length (choose_target opts fs dir nm) = Suc (length dir)"
proof -
  from assms have c: "choose_target opts fs dir nm = find_free fs dir nm 1 (dir @ [nm])"
    by (simp add: choose_target_def)
  show "\<not> fs_exists fs (choose_target opts fs dir nm)"
    unfolding c by (rule find_free_free)
  from find_free_in_dir [of "dir @ [nm]" dir fs nm 1]
  have "butlast (find_free fs dir nm 1 (dir @ [nm])) = dir"
    "find_free fs dir nm 1 (dir @ [nm]) \<noteq> []" by simp_all
  then have "length (find_free fs dir nm 1 (dir @ [nm])) = Suc (length dir)"
    by (metis length_append_singleton snoc_eq_iff_butlast)
  then show "length (choose_target opts fs dir nm) = Suc (length dir)" by (simp only: c)
qed

text \<open>A transfer that fails leaves every existing node in place.\<close>

lemma transfer_failed_keeps:
  assumes "fst (transfer opts io fs X T) = Inl e" "T \<noteq> p" "lookup fs p = Some n"
  shows "lookup (snd (transfer opts io fs X T)) p = Some n"
proof (cases "\<not> fs_exists fs (butlast T) \<or> \<not> cross_device io \<or> copy_fault io")
  case True
  with assms(1,3) show ?thesis
    by (auto simp: transfer_def split: if_splits sum.splits)
next
  case False
  show ?thesis
  proof (cases "copy_file fs X T")
    case (Inl x)
    with False assms(3) show ?thesis by (simp add: transfer_def)
  next
    case (Inr fs2)
    from copy_file_keeps [OF Inr assms(2)] assms(3) have l2: "lookup fs2 p = Some n" by simp
    show ?thesis
    proof (cases "delete_fault io")
      case True
      with False Inr l2 show ?thesis by (simp add: transfer_def)
    next
      case nd: False
      show ?thesis
      proof (cases "if useSafeDelete opts then trash fs2 X else unlink fs2 X")
        case (Inl x)
        with False Inr nd l2 show ?thesis by (simp add: transfer_def)
      next
        case r: (Inr fs3)
        with False Inr nd assms(1) show ?thesis by (simp add: transfer_def)
      qed
    qed
  qed
qed

text \<open>A transfer, failed or not, leaves a node in place that is outside source and target.\<close>

lemma transfer_keeps:
  assumes "lookup fs p = Some n" "\<not> inside X p" "\<not> inside T p"
  shows "lookup (snd (transfer opts io fs X T)) p = Some n"
proof -
  have Xp: "X \<noteq> p" and Tp: "T \<noteq> p" using assms(2,3) by (auto simp: inside_def)
  show ?thesis
  proof (cases "fs_exists fs (butlast T)")
    case False
    with assms(1) show ?thesis by (simp add: transfer_def)
  next
    case ex: True
    show ?thesis
    proof (cases "cross_device io")
      case False
      show ?thesis
      proof (cases "rename fs X T")
        case (Inl x)
        with ex False assms(1) show ?thesis by (simp add: transfer_def)
      next
        case (Inr fs2)
        from rename_keeps [OF Inr assms(2,3)] assms(1) have "lookup fs2 p = Some n" by simp
        with ex False Inr assms(1) show ?thesis by (simp add: transfer_def)
      qed
    next
      case cd: True
      show ?thesis
      proof (cases "copy_file fs X T")
        case (Inl x)
        with ex cd assms(1) show ?thesis by (simp add: transfer_def)
      next
        case (Inr fs2)
        from copy_file_keeps [OF Inr Tp] assms(1) have l2: "lookup fs2 p = Some n" by simp
        show ?thesis
        proof (cases "if useSafeDelete opts then trash fs2 X else unlink fs2 X")
          case (Inl x)
          with ex cd Inr l2 assms(1) show ?thesis by (simp add: transfer_def)
        next
          case r: (Inr fs3)
          have "lookup fs3 p = Some n"
          proof (cases "useSafeDelete opts")
            case True
            with r have "trash fs2 X = Inr fs3" by simp
            from trash_keeps [OF this assms(2)] l2 show ?thesis by simp
          next
            case False
            with r have "unlink fs2 X = Inr fs3" by simp
            from unlink_keeps [OF this Xp] l2 show ?thesis by simp
          qed
          with ex cd Inr r l2 assms(1) show ?thesis by (simp add: transfer_def)
        qed
      qed
    qed
  qed
qed

lemma moveFile_failed_keeps:
  assumes "fst (moveFile X dir opts io fs) = Inl e" "\<not> overwrite opts" "lookup fs p = Some n"
  shows "lookup (snd (moveFile X dir opts io fs)) p = Some n"
proof (cases "fs_exists fs X")
  case False
  with assms(3) show ?thesis by (simp add: moveFile_def)
next
  case True
  show ?thesis
  proof (cases "ensure_target_dir opts fs dir")
    case (Inl err)
    with True assms(3) show ?thesis by (simp add: moveFile_def)
  next
    case (Inr fs1)
    let ?T = "choose_target opts fs1 dir (basename X)"
    have l1: "lookup fs1 p = Some n" by (rule ensure_target_dir_keeps [OF Inr assms(3)])
    with choose_target_fresh(1) [OF assms(2), of fs1 dir "basename X"]
    have Tp: "?T \<noteq> p" by (auto simp: fs_exists_def)
    from assms(1) True Inr have "fst (transfer opts io fs1 X ?T) = Inl e"
      by (simp add: moveFile_def)
    from transfer_failed_keeps [OF this Tp l1] True Inr show ?thesis
      by (simp add: moveFile_def)
  qed
qed

lemma moveFile_keeps:
  assumes "lookup fs p = Some n" "\<not> inside X p" "\<not> overwrite opts"
    "length p = Suc (length dir)"
  shows "lookup (snd (moveFile X dir opts io fs)) p = Some n"
proof (cases "fs_exists fs X")
  case False
  with assms(1) show ?thesis by (simp add: moveFile_def)
next
  case True
  show ?thesis
  proof (cases "ensure_target_dir opts fs dir")
    case (Inl err)
    with True assms(1) show ?thesis by (simp add: moveFile_def)
  next
    case (Inr fs1)
    let ?T = "choose_target opts fs1 dir (basename X)"
    have l1: "lookup fs1 p = Some n" by (rule ensure_target_dir_keeps [OF Inr assms(1)])
    with choose_target_fresh(1) [OF assms(3), of fs1 dir "basename X"]
    have Tp: "?T \<noteq> p" by (auto simp: fs_exists_def)
    have "length ?T = length p"
      using choose_target_fresh(2) [OF assms(3), of fs1 dir "basename X"] assms(4) by simp
    with Tp have "\<not> inside ?T p" using inside_same_length by blast
    from transfer_keeps [OF l1 assms(2) this] True Inr show ?thesis
      by (simp add: moveFile_def)
  qed
qed

text \<open>
  An invariant of the world is kept by the retry loop when every call of the operation
  keeps it; when only failing calls keep it, it is kept unless the loop returns a value.
\<close>

lemma retry_loop_world_inv:
  assumes step: "\<And>w. I w \<Longrightarrow> always \<or> isl (fst (operation w)) \<Longrightarrow> I (snd (operation w))"
  shows "n = nat (maxRetries opts - attempt) \<Longrightarrow> I (world v) \<Longrightarrow>
         always \<or> (\<forall>r. fst (retry_loop opts sig operation attempt lastError v) \<noteq> Returned r) \<Longrightarrow>
         I (world (snd (retry_loop opts sig operation attempt lastError v)))"
proof (induction n arbitrary: attempt lastError v)
  case 0
  then have "\<not> attempt < maxRetries opts" by simp
  then show ?case using "0.prems"(2)
    by (subst retry_loop.simps) (simp split: option.splits)
next
  case (Suc n)
  then have lt: "attempt < maxRetries opts" by simp
  have n: "n = nat (maxRetries opts - (attempt + 1))" using Suc.prems(1) by simp
  let ?v1 = "v\<lparr>world := snd (operation (world v)), calls := Suc (calls v)\<rparr>"
  show ?case
  proof (cases "isAborting (module v)")
    case True
    with lt Suc.prems(2) show ?thesis by (subst retry_loop.simps) simp
  next
    case na: False
    show ?thesis
    proof (cases "fst (operation (world v))")
      case (Inr r)
      with lt na have "retry_loop opts sig operation attempt lastError v = (Returned r, ?v1)"
        by (subst retry_loop.simps) (simp add: Let_def)
      moreover from this Suc.prems(3) have always by auto
      ultimately show ?thesis using step [OF Suc.prems(2)] by simp
    next
      case (Inl e)
      then have I1: "I (snd (operation (world v)))" using step [OF Suc.prems(2)] by simp
      show ?thesis
      proof (cases "attempt < maxRetries opts - 1")
        case False
        with lt na Inl have eq: "retry_loop opts sig operation attempt lastError v =
            retry_loop opts sig operation (attempt + 1) (Some e) ?v1"
          by (subst retry_loop.simps) (simp add: Let_def)
        have "I (world ?v1)" using I1 by simp
        from Suc.IH [OF n this, of "Some e"] Suc.prems(3) show ?thesis
          by (simp add: eq)
      next
        case True
        let ?p = "start_delay (module ?v1)"
        let ?v2 = "?v1\<lparr>module := snd ?p,
                       delays := delays ?v1 @ [backoff_delay opts attempt],
                       localCleanupFunctions :=
                         (case fst ?p of
                            DelayPending t \<Rightarrow> localCleanupFunctions ?v1 @ [t]
                          | DelayRejected \<Rightarrow> localCleanupFunctions ?v1)\<rparr>"
        let ?a = "await_delay (sig attempt) ?p"
        have I2: "I (world (?v2\<lparr>module := snd ?a\<rparr>))" using I1 by simp
        show ?thesis
        proof (cases "fst ?a")
          case Slept
          with lt na Inl True have eq: "retry_loop opts sig operation attempt lastError v =
              retry_loop opts sig operation (attempt + 1) (Some e) (?v2\<lparr>module := snd ?a\<rparr>)"
            by (subst retry_loop.simps) (simp add: Let_def)
          from Suc.IH [OF n I2, of "Some e"] Suc.prems(3) show ?thesis
            by (simp add: eq)
        next
          case DelayThrew
          with lt na Inl True have "retry_loop opts sig operation attempt lastError v =
              (Threw Interrupted, ?v2\<lparr>module := snd ?a\<rparr>)"
            by (subst retry_loop.simps) (simp add: Let_def)
          with I2 show ?thesis by simp
        next
          case DelayNeverSettles
          with lt na Inl True have "retry_loop opts sig operation attempt lastError v =
              (NeverSettled, ?v2\<lparr>module := snd ?a\<rparr>)"
            by (subst retry_loop.simps) (simp add: Let_def)
          with I2 show ?thesis by simp
        qed
      qed
    qed
  qed
qed

lemma retryOperation_world_inv:
  assumes "\<And>w. I w \<Longrightarrow> always \<or> isl (fst (operation w)) \<Longrightarrow> I (snd (operation w))"
    and "I w0"
    and "always \<or> (\<forall>r. fst (retryOperation opts sig operation m w0) \<noteq> Returned r)"
  shows "I (world (snd (retryOperation opts sig operation m w0)))"
proof -
  let ?v0 = "\<lparr>world = w0, module = m, calls = 0, delays = [], localCleanupFunctions = []\<rparr>"
  let ?r = "retry_loop opts sig operation 0 None ?v0"
  show ?thesis
  proof (cases "maxRetries opts < 1 \<or> baseDelay opts < 0 \<or> maxDelay opts < 0")
    case True
    with assms(2) show ?thesis by (auto simp: retryOperation_def Let_def)
  next
    case False
    then have eq: "retryOperation opts sig operation m w0 =
        (case fst ?r of NeverSettled \<Rightarrow> ?r | _ \<Rightarrow> (fst ?r, retry_finally (snd ?r)))"
      by (simp add: retryOperation_def Let_def)
    have f: "fst (retryOperation opts sig operation m w0) = fst ?r"
      unfolding eq by (cases "fst ?r") auto
    have w: "world (snd (retryOperation opts sig operation m w0)) = world (snd ?r)"
      unfolding eq by (cases "fst ?r") (auto simp: retry_finally_def)
    have "always \<or> (\<forall>r. fst ?r \<noteq> Returned r)" using assms(3) by (simp add: f)
    from retry_loop_world_inv [of I always operation "nat (maxRetries opts - 0)" opts 0 ?v0 sig None,
        OF assms(1) refl _ this] assms(2)
    show ?thesis by (simp add: w)
  qed
qed

lemma write_file_intact:
  assumes "write_file fs q y = Inr fs1" "source_intact src c videoDir fs" "q \<noteq> src"
  shows "source_intact src c videoDir fs1"
proof -
  from assms(1,2) have "q \<noteq> videoDir"
    by (auto simp: write_file_def source_intact_def split: if_splits)
  with assms(3) show ?thesis
    using assms(2) write_file_keeps [OF assms(1)]
    by (simp add: source_intact_def is_dir_def)
qed

lemma write_if_intact:
  assumes "source_intact src c videoDir fs" "q \<noteq> src"
  shows "source_intact src c videoDir (write_if b fs q y)"
proof (cases "write_file fs q y")
  case (Inl e)
  with assms(1) show ?thesis by (simp add: write_if_def)
next
  case (Inr fs1)
  with write_file_intact [OF Inr assms] assms(1) show ?thesis
    by (simp add: write_if_def)
qed

lemma generateNfoFile_once_intact:
  assumes "source_intact src c videoDir (fst w)"
    "path_join videoDir (meta_code md @ ''.nfo'') \<noteq> src"
  shows "source_intact src c videoDir (fst (snd (generateNfoFile_once env md videoDir w)))"
proof -
  let ?p = "path_join videoDir (meta_code md @ ''.nfo'')"
  show ?thesis
  proof (cases "write_file (fst w) ?p (nfo_content env)")
    case (Inl e)
    with assms(1) show ?thesis
      by (simp add: generateNfoFile_once_def Let_def split: nfo_outcome.splits)
  next
    case (Inr fs1)
    from write_file_intact [OF Inr assms] assms(1) Inr show ?thesis
      by (simp add: generateNfoFile_once_def Let_def split: nfo_outcome.splits)
  qed
qed

lemma downloadAndSaveCovers_intact:
  assumes "source_intact src c videoDir fs"
    and f: "path_join videoDir (''fanart'' @ cover_ext env) \<noteq> src"
    and p: "path_join videoDir (''poster'' @ cover_ext env) \<noteq> src"
  shows "source_intact src c videoDir (snd (downloadAndSaveCovers env url videoDir fs))"
proof (cases "covers_error env")
  case (Some e)
  have "source_intact src c videoDir
          (write_if (poster_written env)
             (write_if (fanart_written env) fs (path_join videoDir (''fanart'' @ cover_ext env))
                (cover_content env))
             (path_join videoDir (''poster'' @ cover_ext env)) (cover_content env))"
    by (intro write_if_intact assms)
  with Some assms(1) show ?thesis by (simp add: downloadAndSaveCovers_def Let_def)
next
  case None
  show ?thesis
  proof (cases "write_file fs (path_join videoDir (''fanart'' @ cover_ext env))
                  (cover_content env)")
    case (Inl x)
    with None assms(1) show ?thesis by (simp add: downloadAndSaveCovers_def Let_def)
  next
    case (Inr fs1)
    note i1 = write_file_intact [OF Inr assms(1) f]
    show ?thesis
    proof (cases "write_file fs1 (path_join videoDir (''poster'' @ cover_ext env))
                    (cover_content env)")
      case (Inl x)
      with None Inr i1 assms(1) show ?thesis by (simp add: downloadAndSaveCovers_def Let_def)
    next
      case r2: (Inr fs2)
      from write_file_intact [OF r2 i1 p] None Inr r2 assms(1) show ?thesis
        by (simp add: downloadAndSaveCovers_def Let_def)
    qed
  qed
qed

lemma moveVideoFile_once_intact:
  assumes "source_intact src c videoDir (fst w)"
    "isl (fst (moveVideoFile_once env X videoDir w))"
  shows "source_intact src c videoDir (fst (snd (moveVideoFile_once env X videoDir w)))"
proof -
  let ?opts = "\<lparr>useSafeDelete = True, overwrite = False, createDir = True, newName = None\<rparr>"
  let ?r = "moveFile X videoDir ?opts (move_attempts env (snd w)) (fst w)"
  from assms(2) obtain e where f: "fst ?r = Inl e"
    by (cases "fst ?r") (auto simp: moveVideoFile_once_def Let_def)
  have o: "\<not> overwrite ?opts" by simp
  from assms(1) have "lookup (fst w) src = Some (File c)" "lookup (fst w) videoDir = Some Dir"
    by (simp_all add: source_intact_def is_dir_def)
  then have "lookup (snd ?r) src = Some (File c)" "lookup (snd ?r) videoDir = Some Dir"
    using moveFile_failed_keeps [OF f o] by blast+
  then show ?thesis using f
    by (simp add: moveVideoFile_once_def Let_def source_intact_def is_dir_def)
qed

text \<open>When the inner \<open>try\<close> block throws, the source file has not moved.\<close>

lemma pipeline_body_intact:
  assumes I: "source_intact src c videoDir (files st)"
    and nfo: "path_join videoDir (meta_code md @ ''.nfo'') \<noteq> src"
    and fan: "path_join videoDir (''fanart'' @ cover_ext env) \<noteq> src"
    and pos: "path_join videoDir (''poster'' @ cover_ext env) \<noteq> src"
    and thr: "fst (pipeline_body env md src videoDir st) = BodyThrew e"
  shows "source_intact src c videoDir (files (snd (pipeline_body env md src videoDir st)))"
proof -
  let ?r1 = "retryOperation organizer_retry_options (nfo_signal env)
               (generateNfoFile_once env md videoDir) (retry_state st) (files st, 0)"
  let ?st1 = "st\<lparr>files := fst (world (snd ?r1)), retry_state := module (snd ?r1)\<rparr>"
  let ?r2 = "downloadAndSaveCovers env (coverUrl md) videoDir (files ?st1)"
  let ?st2 = "?st1\<lparr>files := snd ?r2\<rparr>"
  let ?r3 = "retryOperation organizer_retry_options (move_signal env)
               (moveVideoFile_once env src videoDir) (retry_state ?st2) (files ?st2, 0)"
  let ?st3 = "?st2\<lparr>files := fst (world (snd ?r3)), retry_state := module (snd ?r3)\<rparr>"
  let ?J = "\<lambda>w :: 'a filesystem \<times> nat. source_intact src c videoDir (fst w)"
  have "?J (world (snd ?r1))"
    by (rule retryOperation_world_inv [where always = True and I = ?J])
       (simp_all add: generateNfoFile_once_intact I nfo)
  then have I1: "source_intact src c videoDir (files ?st1)" by simp
  have I2: "source_intact src c videoDir (files ?st2)"
    using downloadAndSaveCovers_intact [OF I1 fan pos] by simp
  show ?thesis
  proof (cases "fst ?r1")
    case NeverSettled
    with thr show ?thesis by (simp add: pipeline_body_def Let_def)
  next
    case (Threw x)
    with I1 show ?thesis by (simp add: pipeline_body_def Let_def)
  next
    case (Returned nfoPath)
    show ?thesis
    proof (cases "fst ?r2")
      case (Inl x)
      with Returned I2 show ?thesis by (simp add: pipeline_body_def Let_def)
    next
      case (Inr u)
      show ?thesis
      proof (cases "fst ?r3")
        case NeverSettled
        with Returned Inr thr show ?thesis by (simp add: pipeline_body_def Let_def)
      next
        case r: (Returned p)
        with Returned Inr thr show ?thesis by (simp add: pipeline_body_def Let_def)
      next
        case t: (Threw x)
        have "?J (world (snd ?r3))"
        proof (rule retryOperation_world_inv [where always = False and I = ?J])
          show "?J (files ?st2, 0)" using I2 by simp
          show "False \<or> (\<forall>r. fst ?r3 \<noteq> Returned r)" using t by simp
        next
          fix w :: "'a filesystem \<times> nat"
          assume "?J w" "False \<or> isl (fst (moveVideoFile_once env src videoDir w))"
          then show "?J (snd (moveVideoFile_once env src videoDir w))"
            using moveVideoFile_once_intact [of src c videoDir w env src] by simp
        qed
        then have "source_intact src c videoDir (files ?st3)" by simp
        with Returned Inr t show ?thesis by (simp add: pipeline_body_def Let_def)
      qed
    qed
  qed
qed

lemma inside_child: "inside (d @ [x]) p \<Longrightarrow> inside d p"
  using inside_trans [of d "d @ [x]" p] by simp

text \<open>The compensation removes the destination directory and keeps the source file.\<close>

lemma compensate_restores:
  assumes I: "source_intact src c videoDir fs" and out: "\<not> inside videoDir src"
    and io: "\<not> readdir_fault env" "\<not> rm_fault env"
  shows "lookup (compensate videoTypes env src videoDir fs) src = Some (File c) \<and>
         (\<forall>p. inside videoDir p \<longrightarrow> \<not> fs_exists (compensate videoTypes env src videoDir fs) p)"
proof -
  from I have l: "lookup fs src = Some (File c)" and d: "is_dir fs videoDir"
    by (simp_all add: source_intact_def)
  from l have ne: "src \<noteq> []" by (auto simp: lookup_def split: if_splits)
  from out have vne: "videoDir \<noteq> []" by (auto simp: inside_def)
  let ?names = "map (\<lambda>e. last (fst e)) (filter (\<lambda>e. fst e \<noteq> [] \<and> butlast (fst e) = videoDir) fs)"
  let ?opts = "\<lparr>useSafeDelete = False, overwrite = False, createDir = True,
                 newName = Some (basename src)\<rparr>"
  let ?fs1 = "case List.find (\<lambda>f. toLowerCase (extname f) \<in> set videoTypes) ?names of
                None \<Rightarrow> fs
              | Some videoFile \<Rightarrow>
                  snd (moveFile (videoDir @ [videoFile]) (butlast src) ?opts (back_io env) fs)"
  have rd: "readdir fs videoDir = Inr ?names" using d by (simp add: readdir_def)
  have c: "compensate videoTypes env src videoDir fs = rm_rf ?fs1 videoDir"
    using io rd by (simp add: compensate_def Let_def)
  have l1: "lookup ?fs1 src = Some (File c)"
  proof (cases "List.find (\<lambda>f. toLowerCase (extname f) \<in> set videoTypes) ?names")
    case None
    with l show ?thesis by simp
  next
    case (Some f)
    have "\<not> inside (videoDir @ [f]) src" using out inside_child by blast
    moreover have "length src = Suc (length (butlast src))" using ne by simp
    ultimately have "lookup (snd (moveFile (videoDir @ [f]) (butlast src) ?opts (back_io env) fs))
        src = Some (File c)"
      using moveFile_keeps [OF l, of "videoDir @ [f]" ?opts "butlast src" "back_io env"] by simp
    with Some show ?thesis by simp
  qed
  have a: "lookup (rm_rf ?fs1 videoDir) src = Some (File c)"
    using l1 out ne by (simp add: lookup_rm_rf)
  have b: "\<not> fs_exists (rm_rf ?fs1 videoDir) p" if p: "inside videoDir p" for p
  proof -
    from p vne have "p \<noteq> []" by (auto simp: inside_def)
    with p show ?thesis by (simp add: fs_exists_def lookup_rm_rf)
  qed
  show ?thesis unfolding c using a b by blast
qed

lemma resolve_metadata_files [simp]:
  "files (snd (resolve_metadata env videoCode st)) = files st"
  by (simp add: resolve_metadata_def Let_def split: option.splits sum.splits)

text \<open>
  Where the compensation does restore the source. The metadata is resolved, the
  destination directory \<open>path.join(targetDir, metadata.code)\<close> is created, and the inner
  \<open>try\<close> block (description file, covers, move) throws. If the source video is a file
  that does not lie inside the destination directory and is none of the three files the
  block writes, and the \<open>readdir\<close> and \<open>rm\<close> calls of the compensation do not fail, then
  after \<open>processVideo\<close> nothing exists at or below the destination directory, the source
  file is at its original path with its content, and the result reports the error the
  block threw.
\<close>

lemma rollback_outside_destination:
  assumes meta: "fst (resolve_metadata env (info_code videoInfo) st) = Inr md"
    and dir: "videoDir = path_join targetDir (meta_code md)"
    and mk: "\<not> mkdir_fault env" "mkdir_p (files st) videoDir = Inr fs1"
    and body: "fst (pipeline_body env md (file_path (info_file videoInfo)) videoDir
                  ((snd (resolve_metadata env (info_code videoInfo) st))\<lparr>files := fs1\<rparr>))
               = BodyThrew e"
    and src: "lookup (files st) (file_path (info_file videoInfo)) = Some (File c)"
    and out: "\<not> inside videoDir (file_path (info_file videoInfo))"
    and nfo: "path_join videoDir (meta_code md @ ''.nfo'') \<noteq> file_path (info_file videoInfo)"
    and fan: "path_join videoDir (''fanart'' @ cover_ext env)
                \<noteq> file_path (info_file videoInfo)"
    and pos: "path_join videoDir (''poster'' @ cover_ext env)
                \<noteq> file_path (info_file videoInfo)"
    and io: "\<not> readdir_fault env" "\<not> rm_fault env"
  shows "fst (processVideo videoInfo videoTypes targetDir env st)
           = Resolved (Failure (info_code videoInfo) e) \<and>
         (\<forall>p. inside videoDir p \<longrightarrow>
              \<not> fs_exists (files (snd (processVideo videoInfo videoTypes targetDir env st))) p) \<and>
         lookup (files (snd (processVideo videoInfo videoTypes targetDir env st)))
           (file_path (info_file videoInfo)) = Some (File c)"
proof -
  let ?src = "file_path (info_file videoInfo)"
  let ?m = "resolve_metadata env (info_code videoInfo) st"
  let ?b = "pipeline_body env md ?src videoDir ((snd ?m)\<lparr>files := fs1\<rparr>)"
  have I0: "source_intact ?src c videoDir fs1"
    using mkdir_p_keeps [OF mk(2) src] mkdir_p_is_dir [OF mk(2)]
    by (simp add: source_intact_def)
  then have "source_intact ?src c videoDir (files ((snd ?m)\<lparr>files := fs1\<rparr>))" by simp
  from pipeline_body_intact [OF this nfo fan pos body]
  have I1: "source_intact ?src c videoDir (files (snd ?b))" .
  have pv: "processVideo videoInfo videoTypes targetDir env st =
      (Resolved (Failure (info_code videoInfo) e),
       (snd ?b)\<lparr>files := compensate videoTypes env ?src videoDir (files (snd ?b))\<rparr>)"
    using meta mk body by (simp add: processVideo_def Let_def dir [symmetric])
  from compensate_restores [OF I1 out io, of videoTypes] show ?thesis
    by (simp add: pv)
qed

section \<open>The pipeline: every run ends in a result\<close>




lemma resolve_metadata_retry_state [simp]:
  "retry_state (snd (resolve_metadata env videoCode st)) = retry_state st"
  by (simp add: resolve_metadata_def Let_def split: option.splits sum.splits)



section \<open>The pipeline on examples\<close>

lemmas pipeline_eval =
  processVideo_def resolve_metadata_def pipeline_body_def compensate_def
  generateNfoFile_once_def downloadAndSaveCovers_def moveVideoFile_once_def write_if_def
  organizer_retry_options_def retryOperation_def retry_loop.simps retry_finally_def
  start_delay_def await_delay_def timer_fires_def backoff_delay_def fresh_module_def
  moveFile_def ensure_target_dir_def choose_target_def transfer_def find_free.simps
  numbered_def basename_def mkdir_p_def write_file_def readdir_def rename_def reprefix_def
  copy_file_def unlink_def trash_def rm_rf_def lookup_def fs_exists_def is_dir_def
  inside_def extname_def parse_name_def toLowerCase_def lower_char_def
  path_join_def split_sep_def norm_step_def
  cache_get_def cache_set_def get_memory_def get_file_def setMemoryCache_def
  updateAccessOrder_def removeFromAccessOrder_def isExpired_def js_or_def truthy_def
  mem_has_def mem_size_def new_Cache_def
  example_env_def covers_fail_env_def example_state_def example_video_def same_device_def
  rescanned_state_def rescanned_video_def earlier_state_def empty_code_env_def
  flat_state_def flat_video_def Let_def

lemma rollback_outside_destination_example:
  "fst (resolve_metadata covers_fail_env (info_code example_video) example_state)
     = Inr \<lparr>meta_code = ''ABC-123'', coverUrl = ''http://x/c.jpg''\<rparr> \<and>
   lookup (files example_state) [''src'', ''abc-123.mp4''] = Some (File 1) \<and>
   \<not> inside [''out'', ''ABC-123''] [''src'', ''abc-123.mp4''] \<and>
   fst (processVideo example_video [''.mp4'', ''.avi''] [''out''] covers_fail_env example_state)
     = Resolved (Failure ''ABC-123'' (CoversError ''network'')) \<and>
   \<not> fs_exists
       (files (snd (processVideo example_video [''.mp4'', ''.avi''] [''out''] covers_fail_env
          example_state))) [''out'', ''ABC-123''] \<and>
   lookup
     (files (snd (processVideo example_video [''.mp4'', ''.avi''] [''out''] covers_fail_env
        example_state))) [''src'', ''abc-123.mp4''] = Some (File 1)"
proof -
  let ?md = "\<lparr>meta_code = ''ABC-123'', coverUrl = ''http://x/c.jpg''\<rparr>"
  let ?fs1 = "[([''src''], Dir), ([''src'', ''abc-123.mp4''], File 1), ([''out''], Dir),
               ([''out'', ''ABC-123''], Dir)] :: nat filesystem"
  have p: "file_path (info_file example_video) = [''src'', ''abc-123.mp4'']"
    and c: "info_code example_video = ''ABC-123''"
    by (simp_all add: example_video_def)
  have 1: "fst (resolve_metadata covers_fail_env (info_code example_video) example_state) = Inr ?md"
    by (simp add: pipeline_eval)
  have 2: "[''out'', ''ABC-123''] = path_join [''out''] (meta_code ?md)"
    by (simp add: path_join_def split_sep_def norm_step_def)
  have w: "path_join [''out'', ''ABC-123''] (meta_code ?md @ ''.nfo'')
             \<noteq> file_path (info_file example_video)"
    "path_join [''out'', ''ABC-123''] (''fanart'' @ cover_ext covers_fail_env)
             \<noteq> file_path (info_file example_video)"
    "path_join [''out'', ''ABC-123''] (''poster'' @ cover_ext covers_fail_env)
             \<noteq> file_path (info_file example_video)"
    by (simp_all add: path_join_def split_sep_def norm_step_def example_video_def
        covers_fail_env_def example_env_def)
  have 3: "\<not> mkdir_fault covers_fail_env" "\<not> readdir_fault covers_fail_env"
    "\<not> rm_fault covers_fail_env"
    by (simp_all add: covers_fail_env_def example_env_def)
  have 4: "mkdir_p (files example_state) [''out'', ''ABC-123''] = Inr ?fs1"
    by (simp add: pipeline_eval)
  have 5: "fst (pipeline_body covers_fail_env ?md (file_path (info_file example_video))
                  [''out'', ''ABC-123'']
                  ((snd (resolve_metadata covers_fail_env (info_code example_video)
                     example_state))\<lparr>files := ?fs1\<rparr>))
             = BodyThrew (CoversError ''network'')"
    by (simp add: pipeline_eval)
  have 6: "lookup (files example_state) (file_path (info_file example_video)) = Some (File 1)"
    by (simp add: p example_state_def lookup_def)
  have 7: "\<not> inside [''out'', ''ABC-123''] (file_path (info_file example_video))"
    by (simp add: p inside_def)
  note t = rollback_outside_destination [OF 1 2 3(1) 4 5 6 7 w 3(2) 3(3),
      of "[''.mp4'', ''.avi'']"]
  have 8: "inside [''out'', ''ABC-123''] [''out'', ''ABC-123'']" by (simp add: inside_def)
  from t [THEN conjunct2, THEN conjunct1, rule_format, OF 8]
  have 9: "\<not> fs_exists
       (files (snd (processVideo example_video [''.mp4'', ''.avi''] [''out''] covers_fail_env
          example_state))) [''out'', ''ABC-123'']" .
  from t [THEN conjunct1] t [THEN conjunct2, THEN conjunct2] 1 6 7 9 show ?thesis
    by (simp add: p c)
qed

text \<open>
  C1. The compensation does not restore the state before the run when the source video
  lies inside its own destination directory, as it does when the output directory is
  inside the scanned tree and is scanned again after an earlier run. The metadata is
  resolved and the covers step fails; the compensation finds the video in the
  destination directory, "moves it back" to the directory of the source, which is that
  same directory, under a numbered name (\<open>moveFile\<close> never reads \<open>newName\<close>), and removes
  the directory with the video in it. The source video is a file before the run; after
  the run it does not exist, and nothing but the output directory is left.
\<close>

theorem rescanned_source_deleted:
  "fst (resolve_metadata covers_fail_env (info_code rescanned_video) rescanned_state)
     = Inr \<lparr>meta_code = ''ABC-123'', coverUrl = ''http://x/c.jpg''\<rparr> \<and>
   path_join [''out''] ''ABC-123'' = [''out'', ''ABC-123''] \<and>
   lookup (files rescanned_state) (file_path (info_file rescanned_video)) = Some (File 1) \<and>
   fst (processVideo rescanned_video [''.mp4'', ''.avi''] [''out''] covers_fail_env
          rescanned_state)
     = Resolved (Failure ''ABC-123'' (CoversError ''network'')) \<and>
   \<not> fs_exists
       (files (snd (processVideo rescanned_video [''.mp4'', ''.avi''] [''out''] covers_fail_env
          rescanned_state))) (file_path (info_file rescanned_video)) \<and>
   files (snd (processVideo rescanned_video [''.mp4'', ''.avi''] [''out''] covers_fail_env
          rescanned_state)) = [([''out''], Dir)]"
  by (simp add: pipeline_eval)

text \<open>
  Two more runs that fail at the covers step. In the first the destination directory
  already holds the result of an earlier run: the compensation moves that video into
  the directory of the new source and removes the earlier description file with the
  directory. In the second the provider returns an empty code, so the destination
  directory is the output directory itself, and the compensation removes the output
  directory with everything in it, the source included.
\<close>

lemma earlier_output_dismantled:
  "fst (processVideo example_video [''.mp4'', ''.avi''] [''out''] covers_fail_env earlier_state)
     = Resolved (Failure ''ABC-123'' (CoversError ''network'')) \<and>
   files (snd (processVideo example_video [''.mp4'', ''.avi''] [''out''] covers_fail_env
          earlier_state))
     = [([''src''], Dir), ([''src'', ''abc-123.mp4''], File 1), ([''out''], Dir),
        ([''src'', ''abc-123-cd1.mp4''], File 2)]"
  by (simp add: pipeline_eval)

lemma empty_code_removes_output:
  "path_join [''out''] [] = [''out''] \<and>
   fst (processVideo flat_video [''.mp4'', ''.avi''] [''out''] empty_code_env flat_state)
     = Resolved (Failure ''ABC-123'' (CoversError ''network'')) \<and>
   files (snd (processVideo flat_video [''.mp4'', ''.avi''] [''out''] empty_code_env
          flat_state)) = []"
  by (simp add: pipeline_eval)


end
